theory Spec2Isabelle
  imports Main "HOL-Library.Sublist"
begin

text \<open>
  crawllm crawls a website breadth first from a seed URL and writes the pages it
  fetched, converted to Markdown, into one file.  The repository holds two
  implementations of \<^verbatim>\<open>crawlWebsite\<close>.  The one of \<^verbatim>\<open>src/index.ts\<close> follows links on
  the domain of the seed and under its path, strips media and forms from a page, and
  reads the links of a page before it cleans the page; its functions keep their names
  here.  The one of \<^verbatim>\<open>src/unnamed/part_000\<close> follows links on the hostname of the
  seed and cleans a page before it reads its links; its functions carry the suffix
  \<open>_part_000\<close>.  \<^verbatim>\<open>normalizeUrl\<close>, \<^verbatim>\<open>fetchPage\<close>, the loop and the output are
  the same in both.
\<close>

section \<open>JavaScript strings\<close>

text \<open>
  Strings of the crawler are modelled as \<^typ>\<open>string\<close>, one character for each code
  unit; code units beyond one byte are not represented.  The three string methods the
  crawler calls are written out: \<^verbatim>\<open>startsWith\<close>, the test of a suffix that the
  regular expression \<^verbatim>\<open>/...$/\<close> performs, and \<^verbatim>\<open>String.prototype.replace\<close>
  with a string pattern, which replaces the first occurrence only, wherever it is.
\<close>

definition startsWith :: "string \<Rightarrow> string \<Rightarrow> bool" where
  "startsWith s p = (take (length p) s = p)"

definition endsWith :: "string \<Rightarrow> string \<Rightarrow> bool" where
  "endsWith s p = (length p \<le> length s \<and> drop (length s - length p) s = p)"

fun replace_first :: "string \<Rightarrow> string \<Rightarrow> string \<Rightarrow> string" where
  "replace_first pat rep [] = (if pat = [] then rep else [])"
| "replace_first pat rep (c # cs) =
     (if startsWith (c # cs) pat then rep @ drop (length pat) (c # cs)
      else c # replace_first pat rep cs)"

text \<open>\<open>occurs_in p s\<close>: the pattern \<open>p\<close> occurs somewhere in \<open>s\<close>.\<close>

fun occurs_in :: "string \<Rightarrow> string \<Rightarrow> bool" where
  "occurs_in p [] = (p = [])"
| "occurs_in p (c # cs) = (startsWith (c # cs) p \<or> occurs_in p cs)"

text \<open>The flag \<^verbatim>\<open>i\<close> of a regular expression compares ASCII letters without case.\<close>

definition lower_char :: "char \<Rightarrow> char" where
  "lower_char c =
     (case map_of (zip ''ABCDEFGHIJKLMNOPQRSTUVWXYZ'' ''abcdefghijklmnopqrstuvwxyz'') c of
        None \<Rightarrow> c
      | Some l \<Rightarrow> l)"

definition toLowerCase :: "string \<Rightarrow> string" where
  "toLowerCase s = map lower_char s"

section \<open>The URL class\<close>

text \<open>
  \<^verbatim>\<open>URL\<close> comes from Node's \<^verbatim>\<open>url\<close> module.  A URL object is the record of the
  URL Standard; its parser is not part of the repository and is a parameter of the
  model (\<open>url_new\<close> below: the input, an optional base, and \<open>None\<close> where the
  constructor throws).  The getters the crawler reads, the setter of \<^verbatim>\<open>hash\<close> at the
  empty string and the serializer \<^verbatim>\<open>toString\<close> follow the URL Standard: the path is
  kept in its serialized form, with a flag that tells an opaque path (as in
  \<^verbatim>\<open>mailto:\<close>), and the port in decimal digits.  The setter makes the fragment null
  and then strips the trailing spaces of an opaque path when the query is null too.
\<close>

record URL =
  scheme :: string
  username :: string
  password :: string
  host :: "string option"
  port :: "string option"
  path :: string
  query :: "string option"
  fragment :: "string option"
  opaque_path :: bool

definition hostname :: "URL \<Rightarrow> string" where
  "hostname u = (case host u of None \<Rightarrow> [] | Some h \<Rightarrow> h)"

definition pathname :: "URL \<Rightarrow> string" where
  "pathname u = path u"

definition strip_trailing_spaces :: "string \<Rightarrow> string" where
  "strip_trailing_spaces p = rev (dropWhile (\<lambda>c. c = CHR '' '') (rev p))"

definition set_hash_empty :: "URL \<Rightarrow> URL" where
  "set_hash_empty u =
     (if opaque_path u \<and> query u = None
      then u\<lparr>fragment := None, path := strip_trailing_spaces (path u)\<rparr>
      else u\<lparr>fragment := None\<rparr>)"

definition toString :: "URL \<Rightarrow> string" where
  "toString u =
     scheme u @ '':'' @
     (case host u of
        None \<Rightarrow> (if \<not> opaque_path u \<and> startsWith (path u) ''//'' then ''/.'' else [])
      | Some h \<Rightarrow>
          ''//'' @
          (if username u \<noteq> [] \<or> password u \<noteq> []
           then username u @ (if password u \<noteq> [] then '':'' @ password u else []) @ ''@''
           else []) @
          h @ (case port u of None \<Rightarrow> [] | Some p \<Rightarrow> '':'' @ p)) @
     path u @
     (case query u of None \<Rightarrow> [] | Some q \<Rightarrow> ''?'' @ q) @
     (case fragment u of None \<Rightarrow> [] | Some f \<Rightarrow> ''#'' @ f)"

type_synonym url_parser = "string \<Rightarrow> string option \<Rightarrow> URL option"

section \<open>normalizeUrl\<close>

definition normalizeUrl :: "url_parser \<Rightarrow> string \<Rightarrow> string" where
  "normalizeUrl url_new url =
     (case url_new url None of
        Some normalized \<Rightarrow> toString (set_hash_empty normalized)
      | None \<Rightarrow> url)"

section \<open>fetchPage\<close>

text \<open>
  \<^verbatim>\<open>fetch\<close> is the transport.  It either rejects (\<open>None\<close>: a network error) or
  yields a response with its \<^verbatim>\<open>ok\<close> flag, its status text and its body; reading the
  body with \<^verbatim>\<open>text()\<close> may reject as well (\<open>None\<close>).  The network is a state
  \<open>'w\<close> that every call may change.
\<close>

datatype response = Response (ok: bool) (statusText: string) (body_text: "string option")

type_synonym 'w fetcher = "'w \<Rightarrow> string \<Rightarrow> response option \<times> 'w"

definition fetchPage :: "'w fetcher \<Rightarrow> 'w \<Rightarrow> string \<Rightarrow> string option \<times> 'w" where
  "fetchPage fetch w url =
     (case fetch w url of
        (None, w') \<Rightarrow> (None, w')
      | (Some response, w') \<Rightarrow> (if \<not> ok response then (None, w') else (body_text response, w')))"

section \<open>Documents and selectors\<close>

text \<open>
  \<^verbatim>\<open>load\<close> of cheerio parses a page into a tree; the parser is a parameter, the tree
  is modelled.  A selector is a list of alternatives (the commas), each a list of
  conditions on one element.
\<close>

datatype node = Element string "(string \<times> string) list" "node list" | Text string

datatype condition = Tag string | Class string | Id string | HasAttr string | AttrEq string string

type_synonym selector = "condition list list"

text \<open>
  A class selector matches the attribute with \<^verbatim>\<open>(?:^|\s)name(?:$|\s)\<close>.  The characters of
  \<^verbatim>\<open>\s\<close> that fit in one byte are the tabulations, the line feed, the form feed, the
  carriage return, the space and the no-break space.
\<close>

definition is_space :: "char \<Rightarrow> bool" where
  "is_space c =
     (c \<in> set [CHR 0x09, CHR 0x0A, CHR 0x0B, CHR 0x0C, CHR 0x0D, CHR '' '', CHR 0xA0])"

fun tokens :: "string \<Rightarrow> string \<Rightarrow> string list" where
  "tokens cur [] = (if cur = [] then [] else [cur])"
| "tokens cur (c # cs) =
     (if is_space c then (if cur = [] then [] else [cur]) @ tokens [] cs
      else tokens (cur @ [c]) cs)"

fun holds :: "string \<Rightarrow> (string \<times> string) list \<Rightarrow> condition \<Rightarrow> bool" where
  "holds tag attrs (Tag t) = (tag = t)"
| "holds tag attrs (Class c) =
     (case map_of attrs ''class'' of None \<Rightarrow> False | Some v \<Rightarrow> c \<in> set (tokens [] v))"
| "holds tag attrs (Id i) = (map_of attrs ''id'' = Some i)"
| "holds tag attrs (HasAttr a) = (map_of attrs a \<noteq> None)"
| "holds tag attrs (AttrEq a v) = (map_of attrs a = Some v)"

definition matches :: "selector \<Rightarrow> string \<Rightarrow> (string \<times> string) list \<Rightarrow> bool" where
  "matches sel tag attrs = list_ex (list_all (holds tag attrs)) sel"

text \<open>\<^verbatim>\<open>$(sel)\<close>: the matching elements, in document order.\<close>

fun select :: "selector \<Rightarrow> node list \<Rightarrow> node list" where
  "select sel [] = []"
| "select sel (Text t # ns) = select sel ns"
| "select sel (Element tag attrs kids # ns) =
     (if matches sel tag attrs then [Element tag attrs kids] else []) @
     select sel kids @ select sel ns"

text \<open>\<^verbatim>\<open>$(sel).remove()\<close>: every matching element leaves the tree with its subtree.\<close>

fun remove :: "selector \<Rightarrow> node list \<Rightarrow> node list" where
  "remove sel [] = []"
| "remove sel (Text t # ns) = Text t # remove sel ns"
| "remove sel (Element tag attrs kids # ns) =
     (if matches sel tag attrs then remove sel ns
      else Element tag attrs (remove sel kids) # remove sel ns)"

fun attr :: "node \<Rightarrow> string \<Rightarrow> string option" where
  "attr (Element tag attrs kids) name = map_of attrs name"
| "attr (Text t) name = None"

section \<open>cleanHtmlContent\<close>

text \<open>The removals of \<^verbatim>\<open>src/index.ts\<close>, one selector for each statement, in its order.\<close>

definition cleanHtmlContent :: "node list \<Rightarrow> node list" where
  "cleanHtmlContent doc =
     fold remove
       [[[Tag ''nav''], [Tag ''footer'']],
        [[Class ''navigation''], [Class ''nav''], [Class ''navbar''], [Class ''menu'']],
        [[Id ''navbar''], [Id ''navigation''], [Id ''menu''], [Id ''header''], [Id ''footer'']],
        [[Class ''footer'']],
        [[Class ''sidebar''], [Class ''aside'']],
        [[Tag ''aside'']],
        [[Tag ''script'']],
        [[Tag ''style'']],
        [[Tag ''iframe'']],
        [[Tag ''video'']],
        [[Tag ''audio'']],
        [[Tag ''img'']],
        [[Tag ''svg'']],
        [[Tag ''canvas'']],
        [[Tag ''form'']],
        [[Tag ''input'']],
        [[Tag ''button'']],
        [[Tag ''select'']],
        [[Tag ''textarea'']],
        [[Tag ''link'']],
        [[Tag ''meta'']],
        [[AttrEq ''role'' ''navigation'']],
        [[AttrEq ''role'' ''banner'']],
        [[AttrEq ''role'' ''contentinfo'']],
        [[Id ''header''], [Id ''footer''], [Id ''nav''], [Id ''navigation''], [Id ''menu'']],
        [[Class ''social-links''], [Class ''social-media'']],
        [[Class ''breadcrumbs'']]]
       doc"

text \<open>The removals of the second implementation, \<^verbatim>\<open>src/unnamed/part_000\<close>.\<close>

definition cleanHtmlContent_part_000 :: "node list \<Rightarrow> node list" where
  "cleanHtmlContent_part_000 doc =
     fold remove
       [[[Tag ''nav''], [Tag ''header''], [Tag ''footer'']],
        [[Class ''navigation''], [Class ''nav''], [Class ''navbar''], [Class ''menu'']],
        [[Class ''header''], [Class ''footer'']],
        [[Class ''sidebar''], [Class ''aside'']],
        [[Tag ''aside'']],
        [[Tag ''script'']],
        [[Tag ''style'']],
        [[AttrEq ''role'' ''navigation'']],
        [[AttrEq ''role'' ''banner'']],
        [[AttrEq ''role'' ''contentinfo'']],
        [[Id ''header''], [Id ''footer''], [Id ''nav''], [Id ''navigation''], [Id ''menu'']],
        [[Class ''social-links''], [Class ''social-media'']],
        [[Class ''breadcrumbs'']]]
       doc"

section \<open>The callback on every anchor\<close>

text \<open>
  \<^verbatim>\<open>/\.(jpg|jpeg|png|gif|svg|ico|css|js)$/i.test(href)\<close>: the text of the attribute ends
  in a dot and one of the extensions, letters compared without case.
\<close>

definition asset_regex_test :: "string \<Rightarrow> bool" where
  "asset_regex_test href =
     list_ex (\<lambda>ext. endsWith (toLowerCase href) (''.'' @ ext))
       [''jpg'', ''jpeg'', ''png'', ''gif'', ''svg'', ''ico'', ''css'', ''js'']"

text \<open>
  \<^verbatim>\<open>pathname.replace(/\/?$/, '/')\<close>: the first match of the pattern is the final slash
  when there is one and the empty string at the end otherwise.
\<close>

definition ensure_trailing_slash :: "string \<Rightarrow> string" where
  "ensure_trailing_slash p = (if endsWith p ''/'' then p else p @ ''/'')"

text \<open>
  The callback of \<^verbatim>\<open>src/index.ts\<close>.  It reads \<open>visited\<close> and appends to the queue;
  every early \<^verbatim>\<open>return\<close> and the \<^verbatim>\<open>catch\<close> leave the queue as it is.
\<close>

definition each_anchor ::
  "url_parser \<Rightarrow> string \<Rightarrow> string \<Rightarrow> string \<Rightarrow> string set \<Rightarrow> node \<Rightarrow> string list \<Rightarrow> string list" where
  "each_anchor url_new baseDomain basePath currentUrl visited element queue =
     (case attr element ''href'' of
        None \<Rightarrow> queue
      | Some href \<Rightarrow>
          if href = [] then queue
          else if asset_regex_test href then queue
          else
            (case url_new href (Some currentUrl) of
               None \<Rightarrow> queue
             | Some parsed \<Rightarrow>
                 let newUrlObj = set_hash_empty parsed;
                     normalizedUrl = toString newUrlObj;
                     isSameDomain =
                       (replace_first ''www.'' [] (hostname newUrlObj) =
                        replace_first ''www.'' [] baseDomain);
                     newPath = ensure_trailing_slash (pathname newUrlObj);
                     isUnderBasePath = startsWith newPath basePath
                 in if isSameDomain \<and> isUnderBasePath \<and> normalizedUrl \<notin> visited
                    then queue @ [normalizedUrl]
                    else queue))"

text \<open>The callback of \<^verbatim>\<open>src/unnamed/part_000\<close>: the hostnames are compared as they are.\<close>

definition each_anchor_part_000 ::
  "url_parser \<Rightarrow> string \<Rightarrow> string \<Rightarrow> string set \<Rightarrow> node \<Rightarrow> string list \<Rightarrow> string list" where
  "each_anchor_part_000 url_new baseDomain currentUrl visited element queue =
     (case attr element ''href'' of
        None \<Rightarrow> queue
      | Some href \<Rightarrow>
          if href = [] then queue
          else if asset_regex_test href then queue
          else
            (case url_new href (Some currentUrl) of
               None \<Rightarrow> queue
             | Some parsed \<Rightarrow>
                 let newUrlObj = set_hash_empty parsed;
                     normalizedUrl = toString newUrlObj
                 in if hostname newUrlObj = baseDomain \<and> normalizedUrl \<notin> visited
                    then queue @ [normalizedUrl]
                    else queue))"

section \<open>The crawl\<close>

text \<open>
  The collaborators of the crawler: the URL parser, the transport, cheerio's
  \<^verbatim>\<open>load\<close>, the serializer \<^verbatim>\<open>$.html\<close> and \<^verbatim>\<open>turndown\<close>.
\<close>

record 'w env =
  url_new :: url_parser
  fetch :: "'w fetcher"
  load :: "string \<Rightarrow> node list"
  to_html :: "node list \<Rightarrow> string"
  turndown :: "string \<Rightarrow> string"

type_synonym page_processor = "string \<Rightarrow> string set \<Rightarrow> string list \<Rightarrow> string \<Rightarrow> string list \<times> string"

text \<open>
  What the loop does with the text of a page, in \<^verbatim>\<open>src/index.ts\<close>: the anchors are
  read from the tree as it was parsed, then the tree is cleaned and converted.
\<close>

definition process_page :: "'w env \<Rightarrow> string \<Rightarrow> string \<Rightarrow> page_processor" where
  "process_page env baseDomain basePath currentUrl visited queue html =
     (let doc = load env html;
          queue' = fold (each_anchor (url_new env) baseDomain basePath currentUrl visited)
                     (select [[Tag ''a'', HasAttr ''href'']] doc) queue;
          htmlWithoutSomeElements = cleanHtmlContent doc;
          cleanedHtml = to_html env htmlWithoutSomeElements;
          markdownContent = turndown env cleanedHtml
      in (queue', markdownContent))"

text \<open>
  In \<^verbatim>\<open>src/unnamed/part_000\<close> the tree is cleaned in place first, and the anchors are
  read from what is left.
\<close>

definition process_page_part_000 :: "'w env \<Rightarrow> string \<Rightarrow> page_processor" where
  "process_page_part_000 env baseDomain currentUrl visited queue html =
     (let doc = load env html;
          doc' = cleanHtmlContent_part_000 doc;
          cleanedHtml = to_html env doc';
          markdownContent = turndown env cleanedHtml;
          queue' = fold (each_anchor_part_000 (url_new env) baseDomain currentUrl visited)
                     (select [[Tag ''a'', HasAttr ''href'']] doc') queue
      in (queue', markdownContent))"

record page =
  url :: string
  content :: string

text \<open>
  The variables of the loop.  \<open>fetch_log\<close> is not a variable of the program: it keeps
  every call of \<^verbatim>\<open>fetchPage\<close> with what the call returned, in the order of the lines
  \<^verbatim>\<open>Crawling: ...\<close> that the program prints.
\<close>

record 'w crawl_state =
  queue :: "string list"
  visited :: "string set"
  pages :: "page list"
  fetch_log :: "(string \<times> string option) list"
  world :: 'w

text \<open>
  One turn of \<^verbatim>\<open>while (queue.length > 0)\<close>.  \<^verbatim>\<open>!html\<close> holds of \<^verbatim>\<open>null\<close> and of the
  empty string.
\<close>

definition loop_body :: "'w env \<Rightarrow> page_processor \<Rightarrow> 'w crawl_state \<Rightarrow> 'w crawl_state" where
  "loop_body env process s =
     (case queue s of
        [] \<Rightarrow> s
      | currentUrl # rest \<Rightarrow>
          if currentUrl \<in> visited s then s\<lparr>queue := rest\<rparr>
          else
            (case fetchPage (fetch env) (world s) currentUrl of
               (html, w) \<Rightarrow>
                 let s1 = s\<lparr>queue := rest,
                            visited := insert currentUrl (visited s),
                            fetch_log := fetch_log s @ [(currentUrl, html)],
                            world := w\<rparr>
                 in (case html of
                       None \<Rightarrow> s1
                     | Some h \<Rightarrow>
                         if h = [] then s1
                         else
                           (case process currentUrl (visited s1) rest h of
                              (queue', markdownContent) \<Rightarrow>
                                s1\<lparr>queue := queue',
                                   pages := pages s @
                                     [\<lparr>url = currentUrl, content = markdownContent\<rparr>]\<rparr>))))"

text \<open>The loop, with fuel: \<open>None\<close> when the queue is not empty after \<open>n\<close> turns.\<close>

fun crawl_loop ::
  "('w crawl_state \<Rightarrow> 'w crawl_state) \<Rightarrow> nat \<Rightarrow> 'w crawl_state \<Rightarrow> 'w crawl_state option" where
  "crawl_loop body 0 s = (if queue s = [] then Some s else None)"
| "crawl_loop body (Suc n) s = (if queue s = [] then Some s else crawl_loop body n (body s))"

definition initial_state :: "'w \<Rightarrow> string \<Rightarrow> 'w crawl_state" where
  "initial_state w normalizedStartUrl =
     \<lparr>queue = [normalizedStartUrl], visited = {}, pages = [], fetch_log = [], world = w\<rparr>"

section \<open>The output\<close>

definition newline :: string where
  "newline = [CHR 0x0A]"

definition render :: "page list \<Rightarrow> string" where
  "render ps =
     fold (\<lambda>page outputMarkdown.
             outputMarkdown @ ''## '' @ url page @ newline @ newline
               @ content page @ newline @ newline
               @ ''---'' @ newline @ newline)
       ps (''# Crawled Website Content'' @ newline @ newline)"

section \<open>crawlWebsite and main\<close>

text \<open>
  The failures: \<open>InvalidURL\<close> is the exception of \<^verbatim>\<open>new URL\<close> that leaves
  \<^verbatim>\<open>crawlWebsite\<close>; \<open>Usage\<close> and \<open>InvalidSeed\<close> are the two exits of \<^verbatim>\<open>main\<close>, on a
  missing argument and on a seed that \<^verbatim>\<open>new URL\<close> rejects.
\<close>

datatype error = InvalidURL | Usage | InvalidSeed

text \<open>
  \<open>crawl\<close> is \<^verbatim>\<open>crawlWebsite\<close> of \<^verbatim>\<open>src/index.ts\<close> up to the end of its loop:
  \<^verbatim>\<open>new URL(normalizedStartUrl)\<close> throws where the parser fails, before the loop.
\<close>

definition crawl :: "'w env \<Rightarrow> nat \<Rightarrow> 'w \<Rightarrow> string \<Rightarrow> (error + 'w crawl_state) option" where
  "crawl env fuel w startUrl =
     (let normalizedStartUrl = normalizeUrl (url_new env) startUrl
      in case url_new env normalizedStartUrl None of
           None \<Rightarrow> Some (Inl InvalidURL)
         | Some startUrlObj \<Rightarrow>
             let baseDomain = hostname startUrlObj;
                 basePath = ensure_trailing_slash (pathname startUrlObj)
             in map_option Inr
                  (crawl_loop (loop_body env (process_page env baseDomain basePath)) fuel
                     (initial_state w normalizedStartUrl)))"

definition crawl_part_000 ::
  "'w env \<Rightarrow> nat \<Rightarrow> 'w \<Rightarrow> string \<Rightarrow> (error + 'w crawl_state) option" where
  "crawl_part_000 env fuel w startUrl =
     (let normalizedStartUrl = normalizeUrl (url_new env) startUrl
      in case url_new env normalizedStartUrl None of
           None \<Rightarrow> Some (Inl InvalidURL)
         | Some startUrlObj \<Rightarrow>
             let baseDomain = hostname startUrlObj
             in map_option Inr
                  (crawl_loop (loop_body env (process_page_part_000 env baseDomain)) fuel
                     (initial_state w normalizedStartUrl)))"

text \<open>The file that \<^verbatim>\<open>crawlWebsite\<close> writes: its name and its text.\<close>

definition crawlWebsite ::
  "'w env \<Rightarrow> nat \<Rightarrow> 'w \<Rightarrow> string \<Rightarrow> string \<Rightarrow> (error + string \<times> string) option" where
  "crawlWebsite env fuel w startUrl outputFile =
     map_option (map_sum id (\<lambda>s. (outputFile, render (pages s)))) (crawl env fuel w startUrl)"

definition crawlWebsite_part_000 ::
  "'w env \<Rightarrow> nat \<Rightarrow> 'w \<Rightarrow> string \<Rightarrow> string \<Rightarrow> (error + string \<times> string) option" where
  "crawlWebsite_part_000 env fuel w startUrl outputFile =
     map_option (map_sum id (\<lambda>s. (outputFile, render (pages s))))
       (crawl_part_000 env fuel w startUrl)"

text \<open>\<^verbatim>\<open>main\<close> on \<^verbatim>\<open>process.argv\<close>; both of its failures exit with code 1.\<close>

definition main :: "'w env \<Rightarrow> nat \<Rightarrow> 'w \<Rightarrow> string list \<Rightarrow> (error + string \<times> string) option" where
  "main env fuel w argv =
     (if length argv < 3 then Some (Inl Usage)
      else
        let startUrl = argv ! 2;
            outputFile = (if 3 < length argv \<and> argv ! 3 \<noteq> [] then argv ! 3 else ''output.md'')
        in case url_new env startUrl None of
             None \<Rightarrow> Some (Inl InvalidSeed)
           | Some validated \<Rightarrow> crawlWebsite env fuel w startUrl outputFile)"

section \<open>A sample of the collaborators\<close>

text \<open>
  The closed examples below need a parser to run.  \<open>sample_url_new\<close> covers a small
  part of the URL Standard, on which it gives what the standard gives: absolute
  \<^verbatim>\<open>http\<close> and \<^verbatim>\<open>https\<close> URLs with a host of lower-case letters and dots, no
  credentials, no port, and a path, query and fragment of unreserved characters
  without dot segments; \<^verbatim>\<open>mailto:\<close> URLs with an opaque path of letters, digits,
  dots, an at sign and spaces, no query, and no space at either end of the path or at
  the end of the input; and, against an \<^verbatim>\<open>http\<close> or \<^verbatim>\<open>https\<close> base, references
  that start with one slash.  It fails on every other input.  No general theorem
  depends on it.
\<close>

definition split_at :: "char \<Rightarrow> string \<Rightarrow> string \<times> string option" where
  "split_at c s =
     (if c \<in> set s then (takeWhile (\<lambda>x. x \<noteq> c) s, Some (tl (dropWhile (\<lambda>x. x \<noteq> c) s)))
      else (s, None))"

definition plain :: "string \<Rightarrow> string \<Rightarrow> bool" where
  "plain extra s =
     list_all (\<lambda>c. c \<in> set (''abcdefghijklmnopqrstuvwxyzABCDEFGHIJKLMNOPQRSTUVWXYZ0123456789''
                             @ extra)) s"

definition sample_host_ok :: "string \<Rightarrow> bool" where
  "sample_host_ok h =
     (h \<noteq> [] \<and> list_all (\<lambda>c. c \<in> set ''abcdefghijklmnopqrstuvwxyz.'') h
      \<and> \<not> startsWith h ''.'' \<and> \<not> endsWith h ''.'' \<and> \<not> occurs_in ''..'' h)"

definition sample_tail_ok :: "string \<Rightarrow> string option \<Rightarrow> string option \<Rightarrow> bool" where
  "sample_tail_ok p q f =
     (plain ''/._-'' p \<and> \<not> occurs_in ''/.'' p
      \<and> (case q of None \<Rightarrow> True | Some q' \<Rightarrow> plain ''/._-=&'' q')
      \<and> (case f of None \<Rightarrow> True | Some f' \<Rightarrow> plain ''/._-'' f'))"

definition sample_absolute :: "string \<Rightarrow> URL option" where
  "sample_absolute input =
     (case split_at CHR ''#'' input of
        (s1, f) \<Rightarrow>
          (case split_at CHR ''?'' s1 of
             (s2, q) \<Rightarrow>
               let sch = (if startsWith s2 ''https://'' then ''https''
                          else if startsWith s2 ''http://'' then ''http'' else []);
                   rest = drop (length sch + 3) s2;
                   h = takeWhile (\<lambda>x. x \<noteq> CHR ''/'') rest;
                   p = dropWhile (\<lambda>x. x \<noteq> CHR ''/'') rest;
                   p' = (if p = [] then ''/'' else p)
               in if sch \<noteq> [] \<and> sample_host_ok h \<and> sample_tail_ok p' q f
                  then Some \<lparr>scheme = sch, username = [], password = [], host = Some h,
                              port = None, path = p', query = q, fragment = f, opaque_path = False\<rparr>
                  else None))"

definition sample_mailto :: "string \<Rightarrow> URL option" where
  "sample_mailto input =
     (case split_at CHR ''#'' input of
        (s1, f) \<Rightarrow>
          let p = drop 7 s1
          in if startsWith s1 ''mailto:'' \<and> p \<noteq> [] \<and> plain ''@. '' p
                \<and> \<not> startsWith p '' '' \<and> \<not> endsWith input '' ''
                \<and> (case f of None \<Rightarrow> True | Some f' \<Rightarrow> plain ''/._-'' f')
             then Some \<lparr>scheme = ''mailto'', username = [], password = [], host = None,
                         port = None, path = p, query = None, fragment = f,
                         opaque_path = True\<rparr>
             else None)"

definition sample_url_new :: url_parser where
  "sample_url_new input base =
     (case sample_absolute input of
        Some u \<Rightarrow> Some u
      | None \<Rightarrow>
          (case sample_mailto input of
             Some u \<Rightarrow> Some u
           | None \<Rightarrow>
               (case base of
                  None \<Rightarrow> None
                | Some b \<Rightarrow>
                    (case sample_absolute b of
                       None \<Rightarrow> None
                     | Some bu \<Rightarrow>
                         (case split_at CHR ''#'' input of
                            (s1, f) \<Rightarrow>
                              (case split_at CHR ''?'' s1 of
                                 (p, q) \<Rightarrow>
                                   if startsWith p ''/'' \<and> \<not> startsWith p ''//''
                                      \<and> sample_tail_ok p q f
                                   then Some (bu\<lparr>path := p, query := q, fragment := f\<rparr>)
                                   else None))))))"

text \<open>A network that answers every request for a URL in the same way.\<close>

definition static_fetch :: "(string \<Rightarrow> response option) \<Rightarrow> 'w fetcher" where
  "static_fetch web = (\<lambda>w u. (web u, w))"

text \<open>
  The sample environment: the pages of \<open>web\<close>, a parser of pages given as a table,
  the text of a tree for its serialization, and no conversion.
\<close>

fun text_of :: "node list \<Rightarrow> string" where
  "text_of [] = []"
| "text_of (Text t # ns) = t @ text_of ns"
| "text_of (Element tag attrs kids # ns) = text_of kids @ text_of ns"

definition sample_env :: "(string \<Rightarrow> response option) \<Rightarrow> (string \<Rightarrow> node list) \<Rightarrow> unit env" where
  "sample_env web parse =
     \<lparr>url_new = sample_url_new, fetch = static_fetch web, load = parse,
      to_html = text_of, turndown = (\<lambda>markup. markup)\<rparr>"

definition link :: "string \<Rightarrow> node" where
  "link href = Element ''a'' [(''href'', href)] [Text ''link'']"

text \<open>
  A sample site under \<^verbatim>\<open>https://a.com/docs/\<close>.  Its home page has a link inside a
  \<^verbatim>\<open>nav\<close> element, two links to one page that differ in the fragment, a link to a page
  that answers 404, a link to a page that answers 200 with an empty body and a link to
  another host.  One more page, which no page links to, has the name of an image.
\<close>

definition site_web :: "string \<Rightarrow> response option" where
  "site_web u =
     (if u = ''https://a.com/docs/'' then Some (Response True ''OK'' (Some ''home''))
      else if u = ''https://a.com/docs/nav'' then Some (Response True ''OK'' (Some ''nav''))
      else if u = ''https://a.com/docs/x'' then Some (Response True ''OK'' (Some ''x''))
      else if u = ''https://a.com/docs/missing''
        then Some (Response False ''Not Found'' (Some ''gone''))
      else if u = ''https://a.com/docs/empty'' then Some (Response True ''OK'' (Some []))
      else if u = ''https://a.com/docs/logo.png'' then Some (Response True ''OK'' (Some ''png''))
      else None)"

definition site_docs :: "string \<Rightarrow> node list" where
  "site_docs h =
     (if h = ''home''
      then [Element ''nav'' [] [link ''/docs/nav''],
            Element ''p'' [] [Text ''Home''],
            link ''https://a.com/docs/x#sec1'',
            link ''/docs/x#sec2'',
            link ''/docs/missing'',
            link ''/docs/empty'',
            link ''https://other.com/b'']
      else if h = ''nav'' then [Element ''p'' [] [Text ''Nav''], link ''/docs/'']
      else if h = ''x''
        then [Element ''p'' [] [Text ''X''], link ''https://a.com/docs/'', link ''/docs/x#again'']
      else [Element ''p'' [] [Text ''Other'']])"

text \<open>
  The states in which the crawls of the sample site end: from its home page with
  \<^verbatim>\<open>src/index.ts\<close>, from its home page with \<^verbatim>\<open>src/unnamed/part_000\<close>, and from the
  page with the name of an image.
\<close>

definition site_final :: "unit crawl_state" where
  "site_final =
     \<lparr>queue = [],
      visited = {''https://a.com/docs/empty'', ''https://a.com/docs/missing'',
                 ''https://a.com/docs/x'', ''https://a.com/docs/nav'', ''https://a.com/docs/''},
      pages = [\<lparr>url = ''https://a.com/docs/'', content = ''Homelinklinklinklinklink''\<rparr>,
               \<lparr>url = ''https://a.com/docs/nav'', content = ''Navlink''\<rparr>,
               \<lparr>url = ''https://a.com/docs/x'', content = ''Xlinklink''\<rparr>],
      fetch_log = [(''https://a.com/docs/'', Some ''home''),
                   (''https://a.com/docs/nav'', Some ''nav''),
                   (''https://a.com/docs/x'', Some ''x''),
                   (''https://a.com/docs/missing'', None),
                   (''https://a.com/docs/empty'', Some [])],
      world = ()\<rparr>"

definition site_final_part_000 :: "unit crawl_state" where
  "site_final_part_000 =
     \<lparr>queue = [],
      visited = {''https://a.com/docs/empty'', ''https://a.com/docs/missing'',
                 ''https://a.com/docs/x'', ''https://a.com/docs/''},
      pages = [\<lparr>url = ''https://a.com/docs/'', content = ''Homelinklinklinklinklink''\<rparr>,
               \<lparr>url = ''https://a.com/docs/x'', content = ''Xlinklink''\<rparr>],
      fetch_log = [(''https://a.com/docs/'', Some ''home''),
                   (''https://a.com/docs/x'', Some ''x''),
                   (''https://a.com/docs/missing'', None),
                   (''https://a.com/docs/empty'', Some [])],
      world = ()\<rparr>"

definition site_final_logo :: "unit crawl_state" where
  "site_final_logo =
     \<lparr>queue = [], visited = {''https://a.com/docs/logo.png''},
      pages = [\<lparr>url = ''https://a.com/docs/logo.png'', content = ''Other''\<rparr>],
      fetch_log = [(''https://a.com/docs/logo.png'', Some ''png'')],
      world = ()\<rparr>"

definition site_final_empty :: "unit crawl_state" where
  "site_final_empty =
     \<lparr>queue = [], visited = {''https://a.com/docs/empty''}, pages = [],
      fetch_log = [(''https://a.com/docs/empty'', Some [])], world = ()\<rparr>"

section \<open>Notions of the specification\<close>

text \<open>
  The document as the specification words it: a title line, then one section for each
  page, made of a header with the URL of the page, its content and a separator.
\<close>

definition section_of :: "page \<Rightarrow> string" where
  "section_of p =
     ''## '' @ url p @ newline @ newline @ content p @ newline @ newline
       @ ''---'' @ newline @ newline"

definition render_spec :: "page list \<Rightarrow> string" where
  "render_spec ps = ''# Crawled Website Content'' @ newline @ newline @ concat (map section_of ps)"

text \<open>
  Stripping a leading \<^verbatim>\<open>www.\<close> label, as the specification words the comparison of
  domains; and a \<^verbatim>\<open>www.\<close> that occurs anywhere after the first character.
\<close>

definition strip_leading_www :: "string \<Rightarrow> string" where
  "strip_leading_www h = (if startsWith h ''www.'' then drop 4 h else h)"

definition inner_www :: "string \<Rightarrow> bool" where
  "inner_www h = occurs_in ''www.'' (tl h)"

text \<open>
  The links that a page offers in \<^verbatim>\<open>src/index.ts\<close> when nothing is visited yet, the
  text that \<^verbatim>\<open>fetchPage\<close> returns for a URL on a static network, and the URLs that can
  be reached from the seed through the links of pages with a text that is not empty.
\<close>

definition page_links :: "'w env \<Rightarrow> string \<Rightarrow> string \<Rightarrow> string \<Rightarrow> string \<Rightarrow> string list" where
  "page_links env baseDomain basePath currentUrl html =
     fold (each_anchor (url_new env) baseDomain basePath currentUrl {})
       (select [[Tag ''a'', HasAttr ''href'']] (load env html)) []"

definition page_text :: "(string \<Rightarrow> response option) \<Rightarrow> string \<Rightarrow> string option" where
  "page_text web u = fst (fetchPage (static_fetch web) () u)"

inductive_set reachable ::
  "'w env \<Rightarrow> (string \<Rightarrow> response option) \<Rightarrow> string \<Rightarrow> string \<Rightarrow> string \<Rightarrow> string set"
  for env :: "'w env" and web :: "string \<Rightarrow> response option"
    and baseDomain :: string and basePath :: string and seed :: string
  where
    seed: "seed \<in> reachable env web baseDomain basePath seed"
  | link: "u \<in> reachable env web baseDomain basePath seed \<Longrightarrow> page_text web u = Some h \<Longrightarrow> h \<noteq> []
             \<Longrightarrow> l \<in> set (page_links env baseDomain basePath u h)
             \<Longrightarrow> l \<in> reachable env web baseDomain basePath seed"

text \<open>
  The invariants of the loop.  Every call of \<^verbatim>\<open>fetchPage\<close> is for a URL that was not
  visited, the visited URLs are the URLs of the calls, and the pages are the calls that
  returned a text that is not empty, in their order.
\<close>

definition dedup_inv :: "'w crawl_state \<Rightarrow> bool" where
  "dedup_inv s =
     (distinct (map fst (fetch_log s))
      \<and> set (map fst (fetch_log s)) = visited s
      \<and> map url (pages s)
          = map fst (filter (\<lambda>(u, r). r \<noteq> None \<and> r \<noteq> Some []) (fetch_log s)))"

text \<open>
  On a static network: every call returned the text of its URL, the queue and the
  visited set hold reachable URLs only, the seed is known, and every link of a visited
  page with a text is visited or waits in the queue.
\<close>

definition closure_inv ::
  "'w env \<Rightarrow> (string \<Rightarrow> response option) \<Rightarrow> string \<Rightarrow> string \<Rightarrow> string \<Rightarrow> 'w crawl_state \<Rightarrow> bool" where
  "closure_inv env web baseDomain basePath seed s =
     ((\<forall>(u, r) \<in> set (fetch_log s). r = page_text web u)
      \<and> visited s \<union> set (queue s) \<subseteq> reachable env web baseDomain basePath seed
      \<and> seed \<in> visited s \<union> set (queue s)
      \<and> (\<forall>u \<in> visited s. \<forall>h. page_text web u = Some h \<and> h \<noteq> [] \<longrightarrow>
            set (page_links env baseDomain basePath u h) \<subseteq> visited s \<union> set (queue s)))"


section \<open>The aggregation\<close>

lemma fold_render_step:
  "fold (\<lambda>page outputMarkdown.
           outputMarkdown @ ''## '' @ url page @ newline @ newline
             @ content page @ newline @ newline
             @ ''---'' @ newline @ newline) ps acc
   = acc @ concat (map section_of ps)"
  by (induction ps arbitrary: acc) (simp_all add: section_of_def)

text \<open>
  C9.  For every finite sequence of pages, the text that \<^verbatim>\<open>crawlWebsite\<close> builds with
  its loop is one document: the title line followed by the sections of the pages, one
  for each page of the sequence and in its order, each made of a header with the URL,
  the content and the separator.  Nothing is filtered, reordered or merged.
\<close>

theorem render_title_then_sections:
  "render ps = render_spec ps"
  unfolding render_def render_spec_def
  by (simp only: fold_render_step append_assoc)

theorem render_title_then_sections_witness:
  "render [\<lparr>url = ''https://a.com/'', content = ''Home''\<rparr>,
           \<lparr>url = ''https://a.com/about'', content = ''About''\<rparr>]
   = ''# Crawled Website Content'' @ newline @ newline
     @ ''## https://a.com/'' @ newline @ newline @ ''Home'' @ newline @ newline
     @ ''---'' @ newline @ newline
     @ ''## https://a.com/about'' @ newline @ newline @ ''About'' @ newline @ newline
     @ ''---'' @ newline @ newline"
  using render_title_then_sections
    [of "[\<lparr>url = ''https://a.com/'', content = ''Home''\<rparr>,
          \<lparr>url = ''https://a.com/about'', content = ''About''\<rparr>]"]
  by (simp add: render_spec_def section_of_def)

section \<open>Normalization\<close>

lemmas sample_parser_defs =
  sample_url_new_def sample_absolute_def sample_mailto_def split_at_def sample_host_ok_def
  sample_tail_ok_def plain_def startsWith_def endsWith_def








section \<open>Links that are not enqueued\<close>

lemma replace_first_absent:
  "pat \<noteq> [] \<Longrightarrow> \<not> occurs_in pat s \<Longrightarrow> replace_first pat rep s = s"
  by (induction s) auto

lemma replace_first_leading_www:
  "\<not> inner_www h \<Longrightarrow> replace_first ''www.'' [] h = strip_leading_www h"
  by (cases h)
    (simp_all add: inner_www_def strip_leading_www_def replace_first_absent numeral_3_eq_3)

lemma hostname_set_hash_empty [simp]: "hostname (set_hash_empty u) = hostname u"
  by (simp add: hostname_def set_hash_empty_def)

lemma pathname_set_hash_empty:
  "\<not> opaque_path u \<Longrightarrow> pathname (set_hash_empty u) = pathname u"
  by (simp add: pathname_def set_hash_empty_def)

lemmas anchor_eval_defs =
  each_anchor_def each_anchor_part_000_def link_def asset_regex_test_def
  toLowerCase_def lower_char_def sample_parser_defs set_hash_empty_def
  strip_trailing_spaces_def toString_def hostname_def pathname_def ensure_trailing_slash_def

text \<open>
  C3, as the claim states it, fails: on an input that the parser rejects,
  \<^verbatim>\<open>normalizeUrl\<close> catches the exception and returns the input.
\<close>

theorem normalizeUrl_unparsable_counterexample:
  "sample_url_new ''not a url'' None = None
   \<and> normalizeUrl sample_url_new ''not a url'' = ''not a url''"
  by (simp add: normalizeUrl_def sample_parser_defs)

text \<open>
  C3, amended.  On an input that cannot be parsed as an absolute URL,
  \<^verbatim>\<open>normalizeUrl\<close> does not fail: it returns the input as it is.  The failure is
  raised by the callers: with such a seed \<^verbatim>\<open>crawlWebsite\<close> fails with the invalid-URL
  error before its loop, for any fuel, and \<^verbatim>\<open>main\<close> exits before it calls
  \<^verbatim>\<open>crawlWebsite\<close>.  During link discovery, an href that cannot be resolved against
  the URL of the page is skipped: the queue stays as it was.
\<close>

theorem unparsable_input:
  "(url_new env input None = None \<longrightarrow>
      normalizeUrl (url_new env) input = input
      \<and> crawl env fuel w input = Some (Inl InvalidURL)
      \<and> crawl_part_000 env fuel w input = Some (Inl InvalidURL)
      \<and> crawlWebsite env fuel w input out = Some (Inl InvalidURL)
      \<and> main env fuel w [node, script, input] = Some (Inl InvalidSeed))
   \<and> (attr element ''href'' = Some href \<and> url_new env href (Some currentUrl) = None \<longrightarrow>
      each_anchor (url_new env) baseDomain basePath currentUrl seen element q = q
      \<and> each_anchor_part_000 (url_new env) baseDomain currentUrl seen element q = q)"
  by (simp add: normalizeUrl_def crawl_def crawl_part_000_def crawlWebsite_def main_def
      each_anchor_def each_anchor_part_000_def)

theorem unparsable_input_witness:
  "normalizeUrl sample_url_new ''not a url'' = ''not a url''
   \<and> crawl (sample_env (\<lambda>u. None) (\<lambda>h. [])) 5 () ''not a url'' = Some (Inl InvalidURL)
   \<and> main (sample_env (\<lambda>u. None) (\<lambda>h. [])) 5 () [''node'', ''crawllm'', ''not a url'']
       = Some (Inl InvalidSeed)
   \<and> each_anchor sample_url_new ''a.com'' ''/'' ''https://a.com/'' {} (link ''https://'') []
       = []"
proof -
  let ?env = "sample_env (\<lambda>u. None) (\<lambda>h. [])"
  have e: "url_new ?env = sample_url_new" by (simp add: sample_env_def)
  have p1: "url_new ?env ''not a url'' None = None"
    by (simp add: sample_env_def sample_parser_defs)
  have p2: "attr (link ''https://'') ''href'' = Some ''https://''
            \<and> url_new ?env ''https://'' (Some ''https://a.com/'') = None"
    by (simp add: sample_env_def sample_parser_defs link_def)
  show ?thesis
    using unparsable_input [of ?env "''not a url''" 5 "()" undefined "''node''" "''crawllm''"
        "link ''https://''" "''https://''" "''https://a.com/''" "''a.com''" "''/''" "{}" "[]"]
      p1 p2
    by (simp add: e)
qed

text \<open>
  What the filter of assets does reject: an anchor whose href, as it is written in the
  page, ends in a dot and one of the extensions, letters compared without case.
\<close>

lemma asset_href_rejected:
  assumes "attr element ''href'' = Some href"
    and "toLowerCase href = stem @ ''.'' @ ext"
    and "ext \<in> set [''jpg'', ''jpeg'', ''png'', ''gif'', ''svg'', ''ico'', ''css'', ''js'']"
  shows "each_anchor new_url baseDomain basePath currentUrl seen element q = q
         \<and> each_anchor_part_000 new_url baseDomain currentUrl seen element q = q"
proof -
  have "endsWith (toLowerCase href) (''.'' @ ext)"
    using assms(2) by (simp add: endsWith_def)
  with assms(3) have "asset_regex_test href"
    unfolding asset_regex_test_def list_ex_iff by blast
  with assms(1) show ?thesis
    by (simp add: each_anchor_def each_anchor_part_000_def)
qed

text \<open>
  C4.  The claim is not what the callback computes, in either implementation.  The
  regular expression is tested on the text of the href, before the URL is resolved and
  before its fragment is erased.  On the page \<^verbatim>\<open>https://a.com/\<close> the link
  \<^verbatim>\<open>/logo.png\<close> is rejected, but the link \<^verbatim>\<open>/logo.png#top\<close> is not: the URL
  \<^verbatim>\<open>https://a.com/logo.png\<close>, which the regular expression itself accepts, is
  enqueued.  Likewise the path of \<^verbatim>\<open>https://a.com/logo.png?v=2\<close> ends in \<^verbatim>\<open>.png\<close> and
  the URL is enqueued.
\<close>

theorem asset_url_enqueued_behind_fragment_or_query:
  "each_anchor sample_url_new ''a.com'' ''/'' ''https://a.com/'' {} (link ''/logo.png'') [] = []
   \<and> each_anchor sample_url_new ''a.com'' ''/'' ''https://a.com/'' {}
        (link ''/logo.png#top'') [] = [''https://a.com/logo.png'']
   \<and> each_anchor_part_000 sample_url_new ''a.com'' ''https://a.com/'' {}
        (link ''/logo.png#top'') [] = [''https://a.com/logo.png'']
   \<and> asset_regex_test ''https://a.com/logo.png''
   \<and> sample_url_new ''https://a.com/logo.png?v=2'' (Some ''https://a.com/'')
     = Some \<lparr>scheme = ''https'', username = [], password = [], host = Some ''a.com'',
             port = None, path = ''/logo.png'', query = Some ''v=2'', fragment = None,
             opaque_path = False\<rparr>
   \<and> endsWith ''/logo.png'' ''.png''
   \<and> each_anchor sample_url_new ''a.com'' ''/'' ''https://a.com/'' {}
        (link ''https://a.com/logo.png?v=2'') [] = [''https://a.com/logo.png?v=2'']
   \<and> each_anchor_part_000 sample_url_new ''a.com'' ''https://a.com/'' {}
        (link ''https://a.com/logo.png?v=2'') [] = [''https://a.com/logo.png?v=2'']"
  by code_simp

text \<open>
  C5, as the claim states it, fails in \<^verbatim>\<open>src/index.ts\<close>: the hostname
  \<^verbatim>\<open>www.a.com\<close> differs from the hostname \<^verbatim>\<open>a.com\<close> of the seed, and the link is
  enqueued, because the hostnames are compared without their \<^verbatim>\<open>www.\<close>.
\<close>

theorem www_host_counterexample:
  "sample_url_new ''https://www.a.com/x'' (Some ''https://a.com/'')
     = Some \<lparr>scheme = ''https'', username = [], password = [], host = Some ''www.a.com'',
             port = None, path = ''/x'', query = None, fragment = None, opaque_path = False\<rparr>
   \<and> ''www.a.com'' \<noteq> ''a.com''
   \<and> each_anchor sample_url_new ''a.com'' ''/'' ''https://a.com/'' {}
        (link ''https://www.a.com/x'') [] = [''https://www.a.com/x'']"
  by (simp add: anchor_eval_defs)

text \<open>
  C5, amended.  In the implementation that compares hostnames only
  (\<^verbatim>\<open>src/unnamed/part_000\<close>), a link whose hostname differs from the hostname of the
  seed is never enqueued.  In the path-scoped implementation (\<^verbatim>\<open>src/index.ts\<close>), a
  link is never enqueued when its hostname and the hostname of the seed, neither with
  a \<^verbatim>\<open>www.\<close> after its first character, still differ once a leading \<^verbatim>\<open>www.\<close> is
  stripped from each; and it is never enqueued when its path (the path of the URL of
  the link once \<^verbatim>\<open>hash\<close> is set to the empty string, as the callback reads it, which
  is the path of the parsed URL unless that path is opaque), with a trailing slash
  guaranteed, does not start with the base path of the seed.
\<close>

theorem out_of_scope_link_rejected:
  assumes "attr element ''href'' = Some href"
    and "url_new env href (Some currentUrl) = Some parsed"
  shows "(hostname parsed \<noteq> baseDomain \<longrightarrow>
            each_anchor_part_000 (url_new env) baseDomain currentUrl seen element q = q)
         \<and> (\<not> inner_www (hostname parsed) \<and> \<not> inner_www baseDomain
              \<and> strip_leading_www (hostname parsed) \<noteq> strip_leading_www baseDomain \<longrightarrow>
            each_anchor (url_new env) baseDomain basePath currentUrl seen element q = q)
         \<and> (\<not> startsWith (ensure_trailing_slash (pathname (set_hash_empty parsed))) basePath
              \<longrightarrow>
            each_anchor (url_new env) baseDomain basePath currentUrl seen element q = q)
         \<and> (\<not> opaque_path parsed
              \<and> \<not> startsWith (ensure_trailing_slash (pathname parsed)) basePath \<longrightarrow>
            each_anchor (url_new env) baseDomain basePath currentUrl seen element q = q)"
  using assms
  by (auto simp: each_anchor_def each_anchor_part_000_def replace_first_leading_www Let_def
      pathname_set_hash_empty)

theorem out_of_scope_link_rejected_witness:
  "each_anchor_part_000 sample_url_new ''a.com'' ''https://a.com/docs/'' {}
        (link ''https://other.com/page'') [] = []
   \<and> each_anchor sample_url_new ''a.com'' ''/docs/'' ''https://a.com/docs/'' {}
        (link ''https://other.com/page'') [] = []
   \<and> each_anchor sample_url_new ''a.com'' ''/docs/'' ''https://a.com/docs/'' {}
        (link ''https://a.com/blog/post'') [] = []"
proof -
  let ?env = "sample_env (\<lambda>u. None) (\<lambda>h. [])"
  let ?other = "\<lparr>scheme = ''https'', username = [], password = [], host = Some ''other.com'',
             port = None, path = ''/page'', query = None, fragment = None, opaque_path = False\<rparr>"
  let ?blog = "\<lparr>scheme = ''https'', username = [], password = [], host = Some ''a.com'',
             port = None, path = ''/blog/post'', query = None, fragment = None, opaque_path = False\<rparr>"
  have e: "url_new ?env = sample_url_new" by (simp add: sample_env_def)
  have a1: "attr (link ''https://other.com/page'') ''href'' = Some ''https://other.com/page''"
    by (simp add: link_def)
  have a2: "attr (link ''https://a.com/blog/post'') ''href'' = Some ''https://a.com/blog/post''"
    by (simp add: link_def)
  have p1: "url_new ?env ''https://other.com/page'' (Some ''https://a.com/docs/'') = Some ?other"
    by (simp add: sample_env_def sample_parser_defs)
  have p2: "url_new ?env ''https://a.com/blog/post'' (Some ''https://a.com/docs/'') = Some ?blog"
    by (simp add: sample_env_def sample_parser_defs)
  have h1: "hostname ?other \<noteq> ''a.com''
            \<and> \<not> inner_www (hostname ?other) \<and> \<not> inner_www ''a.com''
            \<and> strip_leading_www (hostname ?other) \<noteq> strip_leading_www ''a.com''"
    by (simp add: hostname_def inner_www_def strip_leading_www_def startsWith_def)
  have h2: "\<not> startsWith (ensure_trailing_slash (pathname (set_hash_empty ?blog))) ''/docs/''"
    by (simp add: pathname_def set_hash_empty_def ensure_trailing_slash_def startsWith_def
        endsWith_def)
  show ?thesis
    using out_of_scope_link_rejected [OF a1 p1, of "''a.com''" "{}" "[]" "''/docs/''"]
      out_of_scope_link_rejected [OF a2 p2, of "''a.com''" "{}" "[]" "''/docs/''"] h1 h2
    by (simp add: e)
qed

text \<open>
  C6.  The claim is not what \<^verbatim>\<open>src/index.ts\<close> computes: \<^verbatim>\<open>replace('www.', '')\<close>
  removes the first \<^verbatim>\<open>www.\<close> wherever it is.  The hostnames
  \<^verbatim>\<open>a.www.example.com\<close> and \<^verbatim>\<open>a.example.com\<close> differ after a leading \<^verbatim>\<open>www.\<close> is
  stripped from each, and yet the link is enqueued as one of the domain of the seed.
  The hostnames \<^verbatim>\<open>www.example.com\<close> and \<^verbatim>\<open>example.com\<close> do match.
\<close>

theorem inner_www_treated_as_same_domain:
  "sample_url_new ''https://a.www.example.com/x'' (Some ''https://a.example.com/'')
     = Some \<lparr>scheme = ''https'', username = [], password = [], host = Some ''a.www.example.com'',
             port = None, path = ''/x'', query = None, fragment = None, opaque_path = False\<rparr>
   \<and> strip_leading_www ''a.www.example.com'' \<noteq> strip_leading_www ''a.example.com''
   \<and> replace_first ''www.'' [] ''a.www.example.com'' = replace_first ''www.'' [] ''a.example.com''
   \<and> each_anchor sample_url_new ''a.example.com'' ''/'' ''https://a.example.com/'' {}
        (link ''https://a.www.example.com/x'') [] = [''https://a.www.example.com/x'']
   \<and> replace_first ''www.'' [] ''www.example.com'' = replace_first ''www.'' [] ''example.com''"
  by (simp add: anchor_eval_defs strip_leading_www_def)

section \<open>The loop\<close>

lemma loop_body_empty_queue: "queue s = [] \<Longrightarrow> loop_body env process s = s"
  by (simp add: loop_body_def)

lemma funpow_loop_body_empty_queue:
  "queue s = [] \<Longrightarrow> (loop_body env process ^^ k) s = s"
  by (induction k) (simp_all add: loop_body_empty_queue)

lemma funpow_loop_body_stable:
  assumes "queue ((loop_body env process ^^ n) s) = []" and "n \<le> m"
  shows "(loop_body env process ^^ m) s = (loop_body env process ^^ n) s"
proof -
  from assms(2) obtain k where m: "m = k + n" by (metis le_add_diff_inverse2)
  show ?thesis
    unfolding m funpow_add o_apply
    by (rule funpow_loop_body_empty_queue [OF assms(1)])
qed

lemma crawl_loop_funpow:
  "crawl_loop (loop_body env process) n s =
     (if queue ((loop_body env process ^^ n) s) = []
      then Some ((loop_body env process ^^ n) s) else None)"
proof (induction n arbitrary: s)
  case 0
  then show ?case by simp
next
  case (Suc n)
  show ?case
  proof (cases "queue s = []")
    case True
    then show ?thesis
      using funpow_loop_body_empty_queue [OF True, where k = "Suc n"] by simp
  next
    case False
    then show ?thesis by (simp add: Suc.IH funpow_swap1)
  qed
qed

lemma crawl_final_funpow:
  assumes "crawl env fuel w startUrl = Some (Inr s)"
  shows "\<exists>bd bp. s = (loop_body env (process_page env bd bp) ^^ fuel)
                    (initial_state w (normalizeUrl (url_new env) startUrl)) \<and> queue s = []"
  using assms
  by (auto simp: crawl_def Let_def crawl_loop_funpow split: option.splits if_splits)

lemma crawl_part_000_final_funpow:
  assumes "crawl_part_000 env fuel w startUrl = Some (Inr s)"
  shows "\<exists>bd. s = (loop_body env (process_page_part_000 env bd) ^^ fuel)
                    (initial_state w (normalizeUrl (url_new env) startUrl)) \<and> queue s = []"
  using assms
  by (auto simp: crawl_part_000_def Let_def crawl_loop_funpow split: option.splits if_splits)

lemma crawl_fuel_positive:
  "crawl env fuel w startUrl = Some (Inr s) \<Longrightarrow> 0 < fuel"
  "crawl_part_000 env fuel w startUrl = Some (Inr s) \<Longrightarrow> 0 < fuel"
  by (cases fuel; auto simp: crawl_def crawl_part_000_def Let_def initial_state_def split: option.splits)+

lemma loop_body_visited:
  "queue s = c # rest \<Longrightarrow> visited (loop_body env process s) = insert c (visited s)"
  by (auto simp: loop_body_def Let_def split: prod.splits option.splits)

lemma loop_body_queue_visited:
  "queue s = c # rest \<Longrightarrow> c \<in> visited s \<Longrightarrow> queue (loop_body env process s) = rest"
  by (simp add: loop_body_def)

lemma loop_body_prefix:
  "prefix (fetch_log s) (fetch_log (loop_body env process s))
   \<and> prefix (pages s) (pages (loop_body env process s))"
  by (simp add: loop_body_def Let_def split: list.splits prod.splits option.splits)

lemma funpow_loop_body_prefix:
  "prefix (fetch_log s) (fetch_log ((loop_body env process ^^ n) s))
   \<and> prefix (pages s) (pages ((loop_body env process ^^ n) s))"
proof (induction n)
  case 0
  then show ?case by simp
next
  case (Suc n)
  then show ?case
    using loop_body_prefix [where s = "(loop_body env process ^^ n) s" and env = env and process = process]
    by (auto intro: prefix_order.trans)
qed

subsection \<open>Runs of the sample site\<close>

lemma site_run:
  "crawl (sample_env site_web site_docs) 6 () ''https://a.com/docs/#top'' = Some (Inr site_final)"
  by code_simp

lemma site_run_part_000:
  "crawl_part_000 (sample_env site_web site_docs) 5 () ''https://a.com/docs/#top''
   = Some (Inr site_final_part_000)"
  by code_simp

lemma site_run_logo:
  "crawl (sample_env site_web site_docs) 1 () ''https://a.com/docs/logo.png''
   = Some (Inr site_final_logo)"
  by code_simp

lemma site_run_empty:
  "crawl (sample_env site_web site_docs) 1 () ''https://a.com/docs/empty''
   = Some (Inr site_final_empty)"
  by code_simp

lemma site_seed:
  "normalizeUrl sample_url_new ''https://a.com/docs/#top'' = ''https://a.com/docs/''"
  "sample_url_new ''https://a.com/docs/'' None
   = Some \<lparr>scheme = ''https'', username = [], password = [], host = Some ''a.com'',
           port = None, path = ''/docs/'', query = None, fragment = None, opaque_path = False\<rparr>"
  by code_simp+

lemma site_page_text:
  "page_text site_web ''https://a.com/docs/'' = Some ''home''"
  "page_text site_web ''https://a.com/docs/nav'' = Some ''nav''"
  "page_text site_web ''https://a.com/docs/x'' = Some ''x''"
  "page_text site_web ''https://a.com/docs/missing'' = None"
  "page_text site_web ''https://a.com/docs/empty'' = Some []"
  by code_simp+

lemma site_page_links:
  "page_links (sample_env site_web site_docs) ''a.com'' ''/docs/'' ''https://a.com/docs/'' ''home''
   = [''https://a.com/docs/nav'', ''https://a.com/docs/x'', ''https://a.com/docs/x'',
      ''https://a.com/docs/missing'', ''https://a.com/docs/empty'']"
  "page_links (sample_env site_web site_docs) ''a.com'' ''/docs/'' ''https://a.com/docs/nav'' ''nav''
   = [''https://a.com/docs/'']"
  "page_links (sample_env site_web site_docs) ''a.com'' ''/docs/'' ''https://a.com/docs/x'' ''x''
   = [''https://a.com/docs/'', ''https://a.com/docs/x'']"
  by code_simp+

subsection \<open>No URL is fetched twice\<close>

lemma dedup_inv_initial: "dedup_inv (initial_state w seed)"
  by (simp add: dedup_inv_def initial_state_def)

lemma dedup_inv_loop_body: "dedup_inv s \<Longrightarrow> dedup_inv (loop_body env process s)"
  by (auto simp: dedup_inv_def loop_body_def Let_def
      split: list.splits prod.splits option.splits)

(* link folding *)

lemma dedup_inv_funpow: "dedup_inv s \<Longrightarrow> dedup_inv ((loop_body env process ^^ n) s)"
  by (induction n) (simp_all add: dedup_inv_loop_body)

lemma dedup_inv_distinct_pages: "dedup_inv s \<Longrightarrow> distinct (map url (pages s))"
  by (simp add: dedup_inv_def distinct_map_filter)

lemma dedup_inv_absent:
  assumes "dedup_inv s" and "(u, r) \<in> set (fetch_log s)" and "r = None \<or> r = Some []"
  shows "u \<notin> set (map url (pages s))"
proof
  assume "u \<in> set (map url (pages s))"
  moreover have "map url (pages s)
      = map fst (filter (\<lambda>(u, r). r \<noteq> None \<and> r \<noteq> Some []) (fetch_log s))"
    using assms(1) by (simp add: dedup_inv_def)
  ultimately have "u \<in> fst ` set (filter (\<lambda>(u, r). r \<noteq> None \<and> r \<noteq> Some []) (fetch_log s))"
    by (simp only: set_map)
  then obtain x where x: "x \<in> set (fetch_log s)"
      "case x of (u, r) \<Rightarrow> r \<noteq> None \<and> r \<noteq> Some []" "fst x = u"
    by auto
  obtain r' where "x = (u, r')"
    using x(3) by (cases x) simp
  with x have r': "(u, r') \<in> set (fetch_log s)" "r' \<noteq> None" "r' \<noteq> Some []"
    by simp_all
  have "distinct (map fst (fetch_log s))"
    using assms(1) by (simp add: dedup_inv_def)
  from eq_key_imp_eq_value [OF this assms(2) r'(1)] assms(3) r'(2,3) show False
    by blast
qed

lemma dedup_inv_crawl:
  "crawl env fuel w startUrl = Some (Inr s) \<Longrightarrow> dedup_inv s"
  "crawl_part_000 env fuel w startUrl = Some (Inr s) \<Longrightarrow> dedup_inv s"
proof -
  have inv: "dedup_inv ((loop_body env p ^^ fuel) (initial_state w u))" for p u
    by (rule dedup_inv_funpow [OF dedup_inv_initial])
  show "dedup_inv s" if "crawl env fuel w startUrl = Some (Inr s)"
    using crawl_final_funpow [OF that] inv by blast
  show "dedup_inv s" if "crawl_part_000 env fuel w startUrl = Some (Inr s)"
    using crawl_part_000_final_funpow [OF that] inv by blast
qed

lemma loop_body_dropped_fetch:
  assumes "queue s = c # rest" and "c \<notin> visited s"
    and "fst (fetchPage (fetch env) (world s) c) = None
         \<or> fst (fetchPage (fetch env) (world s) c) = Some []"
  shows "loop_body env process s
         = s\<lparr>queue := rest, visited := insert c (visited s),
              fetch_log := fetch_log s @ [(c, fst (fetchPage (fetch env) (world s) c))],
              world := snd (fetchPage (fetch env) (world s) c)\<rparr>"
  using assms
  by (auto simp: loop_body_def Let_def split: prod.splits option.splits)

lemma fetchPage_failure:
  "fst (f w u) = None \<or> (\<exists>resp. fst (f w u) = Some resp \<and> \<not> ok resp)
   \<Longrightarrow> fst (fetchPage f w u) = None"
  by (auto simp: fetchPage_def split: prod.splits option.splits)

lemma crawl_not_fatal:
  "url_new env (normalizeUrl (url_new env) startUrl) None \<noteq> None
   \<Longrightarrow> crawl env fuel w startUrl \<noteq> Some (Inl e)"
  by (auto simp: crawl_def Let_def split: option.splits)

text \<open>
  C1.  After any number of turns of the loop, whatever the pages hold and whatever
  the network answers, the calls of \<^verbatim>\<open>fetchPage\<close> are for pairwise different URLs,
  which are the visited URLs, and the pages have pairwise different URLs; so they are
  in the state in which a crawl ends, in both implementations.  A URL that is offered many times, through several
  links or through variants that differ in the fragment, is fetched once.
\<close>

theorem each_url_fetched_at_most_once:
  "distinct (map fst (fetch_log ((loop_body env process ^^ n) (initial_state w seed))))
   \<and> set (map fst (fetch_log ((loop_body env process ^^ n) (initial_state w seed))))
       = visited ((loop_body env process ^^ n) (initial_state w seed))
   \<and> distinct (map url (pages ((loop_body env process ^^ n) (initial_state w seed))))
   \<and> (crawl env fuel w startUrl = Some (Inr s) \<longrightarrow>
        distinct (map fst (fetch_log s)) \<and> distinct (map url (pages s)))
   \<and> (crawl_part_000 env fuel w startUrl = Some (Inr s') \<longrightarrow>
        distinct (map fst (fetch_log s')) \<and> distinct (map url (pages s')))"
proof -
  have inv: "dedup_inv ((loop_body env p ^^ k) (initial_state w u))" for p k u
    by (rule dedup_inv_funpow [OF dedup_inv_initial])
  have d: "distinct (map fst (fetch_log ((loop_body env p ^^ k) (initial_state w u))))
           \<and> set (map fst (fetch_log ((loop_body env p ^^ k) (initial_state w u))))
               = visited ((loop_body env p ^^ k) (initial_state w u))
           \<and> distinct (map url (pages ((loop_body env p ^^ k) (initial_state w u))))" for p k u
    using inv [where p = p and k = k and u = u] dedup_inv_distinct_pages [OF inv [where p = p and k = k and u = u]]
    by (simp add: dedup_inv_def)
  have c1: "distinct (map fst (fetch_log s)) \<and> distinct (map url (pages s))"
    if "crawl env fuel w startUrl = Some (Inr s)"
    using crawl_final_funpow [OF that] d by blast
  have c2: "distinct (map fst (fetch_log s')) \<and> distinct (map url (pages s'))"
    if "crawl_part_000 env fuel w startUrl = Some (Inr s')"
    using crawl_part_000_final_funpow [OF that] d by blast
  show ?thesis using d c1 c2 by blast
qed

theorem each_url_fetched_at_most_once_witness:
  "crawl (sample_env site_web site_docs) 6 () ''https://a.com/docs/#top'' = Some (Inr site_final)
   \<and> distinct (map fst (fetch_log site_final))
   \<and> distinct (map url (pages site_final))
   \<and> crawl_part_000 (sample_env site_web site_docs) 5 () ''https://a.com/docs/#top''
       = Some (Inr site_final_part_000)
   \<and> distinct (map fst (fetch_log site_final_part_000))
   \<and> distinct (map url (pages site_final_part_000))"
  using each_url_fetched_at_most_once
    [where env = "sample_env site_web site_docs" and fuel = 6 and w = "()"
       and startUrl = "''https://a.com/docs/#top''" and s = site_final]
    each_url_fetched_at_most_once
    [where env = "sample_env site_web site_docs" and fuel = 5 and w = "()"
       and startUrl = "''https://a.com/docs/#top''" and s' = site_final_part_000]
    site_run site_run_part_000
  by simp

subsection \<open>The seed\<close>

lemma first_turn:
  "fetch_log (loop_body env process (initial_state w seed))
     = [(seed, fst (fetchPage (fetch env) w seed))]
   \<and> (\<forall>h. fst (fetchPage (fetch env) w seed) = Some h \<and> h \<noteq> [] \<longrightarrow>
        pages (loop_body env process (initial_state w seed))
          = [\<lparr>url = seed, content = snd (process seed {seed} [] h)\<rparr>])"
  by (simp add: loop_body_def initial_state_def Let_def split: prod.splits option.splits)

lemma seed_first:
  "\<exists>rest. fetch_log ((loop_body env process ^^ Suc n) (initial_state w seed))
      = (seed, fst (fetchPage (fetch env) w seed)) # rest"
  "fst (fetchPage (fetch env) w seed) = Some h \<Longrightarrow> h \<noteq> [] \<Longrightarrow>
   \<exists>rest. pages ((loop_body env process ^^ Suc n) (initial_state w seed))
      = \<lparr>url = seed, content = snd (process seed {seed} [] h)\<rparr> # rest"
proof -
  let ?s1 = "loop_body env process (initial_state w seed)"
  have sw: "(loop_body env process ^^ Suc n) (initial_state w seed) = (loop_body env process ^^ n) ?s1"
    by (simp add: funpow_swap1)
  show "\<exists>rest. fetch_log ((loop_body env process ^^ Suc n) (initial_state w seed))
      = (seed, fst (fetchPage (fetch env) w seed)) # rest"
    unfolding sw
    using funpow_loop_body_prefix [where s = ?s1 and env = env and process = process and n = n]
      first_turn [where env = env and process = process and w = w and seed = seed]
    by (auto simp: prefix_def)
  show "\<exists>rest. pages ((loop_body env process ^^ Suc n) (initial_state w seed))
      = \<lparr>url = seed, content = snd (process seed {seed} [] h)\<rparr> # rest"
    if "fst (fetchPage (fetch env) w seed) = Some h" "h \<noteq> []"
    unfolding sw
    using funpow_loop_body_prefix [where s = ?s1 and env = env and process = process and n = n]
      first_turn [where env = env and process = process and w = w and seed = seed] that
    by (auto simp: prefix_def)
qed

lemma process_page_content:
  "snd (process_page env bd bp cur V q h) = turndown env (to_html env (cleanHtmlContent (load env h)))"
  by (simp add: process_page_def Let_def)

lemma process_page_part_000_content:
  "snd (process_page_part_000 env bd cur V q h)
   = turndown env (to_html env (cleanHtmlContent_part_000 (load env h)))"
  by (simp add: process_page_part_000_def Let_def)

text \<open>
  C10, as the claim states it, fails: the seed of this crawl is fetched, the fetch
  succeeds with status 200 and an empty body, and the seed is not among the pages,
  because \<^verbatim>\<open>!html\<close> holds of the empty string.
\<close>

theorem seed_empty_body_counterexample:
  "site_web ''https://a.com/docs/empty'' = Some (Response True ''OK'' (Some []))
   \<and> fetchPage (fetch (sample_env site_web site_docs)) () ''https://a.com/docs/empty''
       = (Some [], ())
   \<and> crawl (sample_env site_web site_docs) 1 () ''https://a.com/docs/empty''
       = Some (Inr site_final_empty)
   \<and> fetch_log site_final_empty = [(''https://a.com/docs/empty'', Some [])]
   \<and> pages site_final_empty = []"
  by code_simp

text \<open>
  C10, amended.  The seed is exempt from the filter of assets and from the scope
  check, which are applied to links only.  Whatever the seed is, after one turn or
  more the first call of \<^verbatim>\<open>fetchPage\<close> is for the normalized seed; if that call
  returned a text that is not empty, the first page is the page of the seed; if it
  failed or returned an empty text, the seed is not among the pages.  The same holds
  in the state in which a crawl ends, in both implementations, where the content of
  the page of the seed is the converted text of its cleaned tree.
\<close>

theorem seed_fetched_first:
  "(\<exists>rest. fetch_log ((loop_body env process ^^ Suc n)
                (initial_state w (normalizeUrl (url_new env) startUrl)))
       = (normalizeUrl (url_new env) startUrl,
          fst (fetchPage (fetch env) w (normalizeUrl (url_new env) startUrl))) # rest)
   \<and> (\<forall>h. fst (fetchPage (fetch env) w (normalizeUrl (url_new env) startUrl)) = Some h
           \<and> h \<noteq> [] \<longrightarrow>
         (\<exists>rest. pages ((loop_body env process ^^ Suc n)
                      (initial_state w (normalizeUrl (url_new env) startUrl)))
            = \<lparr>url = normalizeUrl (url_new env) startUrl,
               content = snd (process (normalizeUrl (url_new env) startUrl)
                                {normalizeUrl (url_new env) startUrl} [] h)\<rparr> # rest))
   \<and> (fst (fetchPage (fetch env) w (normalizeUrl (url_new env) startUrl)) = None
        \<or> fst (fetchPage (fetch env) w (normalizeUrl (url_new env) startUrl)) = Some [] \<longrightarrow>
        normalizeUrl (url_new env) startUrl
          \<notin> set (map url (pages ((loop_body env process ^^ Suc n)
                                   (initial_state w (normalizeUrl (url_new env) startUrl))))))
   \<and> (crawl env fuel w startUrl = Some (Inr s) \<longrightarrow>
      (\<exists>rest. fetch_log s
         = (normalizeUrl (url_new env) startUrl,
            fst (fetchPage (fetch env) w (normalizeUrl (url_new env) startUrl))) # rest)
      \<and> (\<forall>h. fst (fetchPage (fetch env) w (normalizeUrl (url_new env) startUrl)) = Some h
              \<and> h \<noteq> [] \<longrightarrow>
            (\<exists>rest. pages s
               = \<lparr>url = normalizeUrl (url_new env) startUrl,
                  content = turndown env (to_html env (cleanHtmlContent (load env h)))\<rparr> # rest))
      \<and> (fst (fetchPage (fetch env) w (normalizeUrl (url_new env) startUrl)) = None
           \<or> fst (fetchPage (fetch env) w (normalizeUrl (url_new env) startUrl)) = Some [] \<longrightarrow>
           normalizeUrl (url_new env) startUrl \<notin> set (map url (pages s))))
   \<and> (crawl_part_000 env fuel w startUrl = Some (Inr s') \<longrightarrow>
      (\<exists>rest. fetch_log s'
         = (normalizeUrl (url_new env) startUrl,
            fst (fetchPage (fetch env) w (normalizeUrl (url_new env) startUrl))) # rest)
      \<and> (\<forall>h. fst (fetchPage (fetch env) w (normalizeUrl (url_new env) startUrl)) = Some h
              \<and> h \<noteq> [] \<longrightarrow>
            (\<exists>rest. pages s'
               = \<lparr>url = normalizeUrl (url_new env) startUrl,
                  content = turndown env (to_html env (cleanHtmlContent_part_000 (load env h)))\<rparr>
                 # rest))
      \<and> (fst (fetchPage (fetch env) w (normalizeUrl (url_new env) startUrl)) = None
           \<or> fst (fetchPage (fetch env) w (normalizeUrl (url_new env) startUrl)) = Some [] \<longrightarrow>
           normalizeUrl (url_new env) startUrl \<notin> set (map url (pages s'))))"
proof -
  let ?seed = "normalizeUrl (url_new env) startUrl"
  let ?r = "fst (fetchPage (fetch env) w ?seed)"
  have turn: "(\<exists>rest. fetch_log ((loop_body env p ^^ Suc k) (initial_state w ?seed))
                  = (?seed, ?r) # rest)
       \<and> (\<forall>h. ?r = Some h \<and> h \<noteq> [] \<longrightarrow>
             (\<exists>rest. pages ((loop_body env p ^^ Suc k) (initial_state w ?seed))
                = \<lparr>url = ?seed, content = snd (p ?seed {?seed} [] h)\<rparr> # rest))
       \<and> (?r = None \<or> ?r = Some [] \<longrightarrow>
             ?seed \<notin> set (map url (pages ((loop_body env p ^^ Suc k)
                                            (initial_state w ?seed)))))" for p k
  proof (intro conjI allI impI)
    let ?s = "(loop_body env p ^^ Suc k) (initial_state w ?seed)"
    show first: "\<exists>rest. fetch_log ?s = (?seed, ?r) # rest"
      by (rule seed_first(1))
    show "\<exists>rest. pages ?s = \<lparr>url = ?seed, content = snd (p ?seed {?seed} [] h)\<rparr> # rest"
      if "?r = Some h \<and> h \<noteq> []" for h
      using that seed_first(2) [where env = env and w = w and seed = ?seed and h = h
          and process = p and n = k]
      by blast
    have inv: "dedup_inv ?s"
      by (rule dedup_inv_funpow [OF dedup_inv_initial])
    from first have "(?seed, ?r) \<in> set (fetch_log ?s)"
      by auto
    then show "?seed \<notin> set (map url (pages ?s))" if "?r = None \<or> ?r = Some []"
      using dedup_inv_absent [OF inv _ that] by blast
  qed
  have c1: "(\<exists>rest. fetch_log s = (?seed, ?r) # rest)
      \<and> (\<forall>h. ?r = Some h \<and> h \<noteq> [] \<longrightarrow>
            (\<exists>rest. pages s
               = \<lparr>url = ?seed,
                  content = turndown env (to_html env (cleanHtmlContent (load env h)))\<rparr> # rest))
      \<and> (?r = None \<or> ?r = Some [] \<longrightarrow> ?seed \<notin> set (map url (pages s)))"
    if c: "crawl env fuel w startUrl = Some (Inr s)"
  proof -
    from crawl_fuel_positive(1) [OF c] obtain k where k: "fuel = Suc k"
      by (cases fuel) auto
    from crawl_final_funpow [OF c] obtain bd bp
      where s: "s = (loop_body env (process_page env bd bp) ^^ Suc k) (initial_state w ?seed)"
      unfolding k by blast
    show ?thesis
      unfolding s
      by (rule turn [where p = "process_page env bd bp" and k = k,
            unfolded process_page_content])
  qed
  have c2: "(\<exists>rest. fetch_log s' = (?seed, ?r) # rest)
      \<and> (\<forall>h. ?r = Some h \<and> h \<noteq> [] \<longrightarrow>
            (\<exists>rest. pages s'
               = \<lparr>url = ?seed,
                  content = turndown env (to_html env (cleanHtmlContent_part_000 (load env h)))\<rparr>
                 # rest))
      \<and> (?r = None \<or> ?r = Some [] \<longrightarrow> ?seed \<notin> set (map url (pages s')))"
    if c: "crawl_part_000 env fuel w startUrl = Some (Inr s')"
  proof -
    from crawl_fuel_positive(2) [OF c] obtain k where k: "fuel = Suc k"
      by (cases fuel) auto
    from crawl_part_000_final_funpow [OF c] obtain bd
      where s: "s' = (loop_body env (process_page_part_000 env bd) ^^ Suc k)
                       (initial_state w ?seed)"
      unfolding k by blast
    show ?thesis
      unfolding s
      by (rule turn [where p = "process_page_part_000 env bd" and k = k,
            unfolded process_page_part_000_content])
  qed
  from turn [where p = process and k = n] c1 c2 show ?thesis
    by blast
qed

theorem seed_fetched_first_witness:
  "asset_regex_test ''https://a.com/docs/logo.png''
   \<and> crawl (sample_env site_web site_docs) 1 () ''https://a.com/docs/logo.png''
       = Some (Inr site_final_logo)
   \<and> (\<exists>rest. fetch_log site_final_logo = (''https://a.com/docs/logo.png'', Some ''png'') # rest)
   \<and> (\<exists>rest. pages site_final_logo
         = \<lparr>url = ''https://a.com/docs/logo.png'', content = ''Other''\<rparr> # rest)
   \<and> crawl (sample_env site_web site_docs) 1 () ''https://a.com/docs/empty''
       = Some (Inr site_final_empty)
   \<and> ''https://a.com/docs/empty'' \<notin> set (map url (pages site_final_empty))"
proof -
  let ?env = "sample_env site_web site_docs"
  have e: "url_new ?env = sample_url_new" "fetch ?env = static_fetch site_web"
    by (simp_all add: sample_env_def)
  have n: "normalizeUrl sample_url_new ''https://a.com/docs/logo.png''
           = ''https://a.com/docs/logo.png''"
    "normalizeUrl sample_url_new ''https://a.com/docs/empty'' = ''https://a.com/docs/empty''"
    by code_simp+
  have f: "fst (fetchPage (static_fetch site_web) () ''https://a.com/docs/logo.png'') = Some ''png''"
    "fst (fetchPage (static_fetch site_web) () ''https://a.com/docs/empty'') = Some []"
    by code_simp+
  have a: "asset_regex_test ''https://a.com/docs/logo.png''"
    by code_simp
  have c: "turndown ?env (to_html ?env (cleanHtmlContent (load ?env ''png''))) = ''Other''"
    by code_simp
  have logo: "(\<exists>rest. fetch_log site_final_logo
                  = (''https://a.com/docs/logo.png'', Some ''png'') # rest)
      \<and> (\<exists>rest. pages site_final_logo
             = \<lparr>url = ''https://a.com/docs/logo.png'', content = ''Other''\<rparr> # rest)"
    using seed_fetched_first [where env = ?env and fuel = 1 and w = "()"
        and startUrl = "''https://a.com/docs/logo.png''" and s = site_final_logo]
      site_run_logo
    by (simp add: e n f c)
  have empty: "''https://a.com/docs/empty'' \<notin> set (map url (pages site_final_empty))"
    using seed_fetched_first [where env = ?env and fuel = 1 and w = "()"
        and startUrl = "''https://a.com/docs/empty''" and s = site_final_empty]
      site_run_empty
    by (simp add: e n f)
  from a site_run_logo logo site_run_empty empty show ?thesis
    by blast
qed

section \<open>Link discovery and cleaning\<close>

lemma each_anchor_append:
  "each_anchor nu bd bp cur V el q = q @ filter (\<lambda>l. l \<notin> V) (each_anchor nu bd bp cur {} el [])"
  by (simp add: each_anchor_def Let_def split: option.splits)

lemma fold_each_anchor_empty:
  "fold (each_anchor nu bd bp cur {}) els q = q @ fold (each_anchor nu bd bp cur {}) els []"
proof (induction els arbitrary: q)
  case Nil
  then show ?case by simp
next
  case (Cons el els)
  have "fold (each_anchor nu bd bp cur {}) (el # els) q
        = each_anchor nu bd bp cur {} el q @ fold (each_anchor nu bd bp cur {}) els []"
    using Cons.IH [of "each_anchor nu bd bp cur {} el q"] by simp
  also have "\<dots> = q @ each_anchor nu bd bp cur {} el [] @ fold (each_anchor nu bd bp cur {}) els []"
    using each_anchor_append [of nu bd bp cur "{}" el q] by simp
  also have "\<dots> = q @ fold (each_anchor nu bd bp cur {}) (el # els) []"
    using Cons.IH [of "each_anchor nu bd bp cur {} el []"] by simp
  finally show ?case .
qed

lemma fold_each_anchor:
  "fold (each_anchor nu bd bp cur V) els q
   = q @ filter (\<lambda>l. l \<notin> V) (fold (each_anchor nu bd bp cur {}) els [])"
proof (induction els arbitrary: q)
  case Nil
  then show ?case by simp
next
  case (Cons el els)
  have "fold (each_anchor nu bd bp cur V) (el # els) q
        = each_anchor nu bd bp cur V el q
            @ filter (\<lambda>l. l \<notin> V) (fold (each_anchor nu bd bp cur {}) els [])"
    using Cons.IH [of "each_anchor nu bd bp cur V el q"] by simp
  also have "\<dots> = q @ filter (\<lambda>l. l \<notin> V)
                        (each_anchor nu bd bp cur {} el [] @ fold (each_anchor nu bd bp cur {}) els [])"
    using each_anchor_append [of nu bd bp cur V el q] by simp
  also have "each_anchor nu bd bp cur {} el [] @ fold (each_anchor nu bd bp cur {}) els []
             = fold (each_anchor nu bd bp cur {}) (el # els) []"
    using fold_each_anchor_empty [of nu bd bp cur els "each_anchor nu bd bp cur {} el []"] by simp
  finally show ?case .
qed

lemma process_page_queue:
  "fst (process_page env bd bp cur V q h) = q @ filter (\<lambda>l. l \<notin> V) (page_links env bd bp cur h)"
  by (simp add: process_page_def page_links_def Let_def fold_each_anchor [of _ _ _ _ V])

text \<open>
  C2.  \<^verbatim>\<open>src/index.ts\<close> reads the anchors from the tree as it was parsed
  (\<open>process_page_queue\<close>: the queue grows by the links of \<open>page_links\<close>, which are the
  links of \<open>load env html\<close>).  \<^verbatim>\<open>src/unnamed/part_000\<close> does not: it cleans the tree
  in place first, so a link inside a \<^verbatim>\<open>nav\<close> element is hidden from the callback.  On
  the home page of the sample site the first implementation enqueues
  \<^verbatim>\<open>https://a.com/docs/nav\<close> and crawls it, the second never does.
\<close>

theorem part_000_hides_links_of_removed_elements:
  "fst (process_page (sample_env site_web site_docs) ''a.com'' ''/docs/''
          ''https://a.com/docs/'' {''https://a.com/docs/''} [] ''home'')
     = [''https://a.com/docs/nav'', ''https://a.com/docs/x'', ''https://a.com/docs/x'',
        ''https://a.com/docs/missing'', ''https://a.com/docs/empty'']
   \<and> fst (process_page_part_000 (sample_env site_web site_docs) ''a.com''
          ''https://a.com/docs/'' {''https://a.com/docs/''} [] ''home'')
     = [''https://a.com/docs/x'', ''https://a.com/docs/x'',
        ''https://a.com/docs/missing'', ''https://a.com/docs/empty'']
   \<and> crawl (sample_env site_web site_docs) 6 () ''https://a.com/docs/#top''
       = Some (Inr site_final)
   \<and> ''https://a.com/docs/nav'' \<in> set (map url (pages site_final))
   \<and> crawl_part_000 (sample_env site_web site_docs) 5 () ''https://a.com/docs/#top''
       = Some (Inr site_final_part_000)
   \<and> ''https://a.com/docs/nav'' \<notin> set (map fst (fetch_log site_final_part_000))
   \<and> ''https://a.com/docs/nav'' \<notin> set (map url (pages site_final_part_000))"
  by code_simp

section \<open>Fetch failures\<close>

lemma fetchPage_static: "fetchPage (static_fetch web) w u = (page_text web u, w)"
  by (simp add: fetchPage_def static_fetch_def page_text_def split: option.splits)

lemma closure_inv_initial:
  "closure_inv env web bd bp seed (initial_state w seed)"
  by (simp add: closure_inv_def initial_state_def reachable.seed)

lemma closure_inv_loop_body:
  assumes st: "fetch env = static_fetch web"
    and inv: "closure_inv env web bd bp seed s"
  shows "closure_inv env web bd bp seed (loop_body env (process_page env bd bp) s)"
proof (cases "queue s")
  case Nil
  then show ?thesis using inv by (simp add: loop_body_def)
next
  case (Cons c rest)
  let ?R = "reachable env web bd bp seed"
  from inv have i1: "\<And>u r. (u, r) \<in> set (fetch_log s) \<Longrightarrow> r = page_text web u"
    and i2: "visited s \<union> set (queue s) \<subseteq> ?R"
    and i3: "seed \<in> visited s \<union> set (queue s)"
    and i4: "\<And>u h. u \<in> visited s \<Longrightarrow> page_text web u = Some h \<Longrightarrow> h \<noteq> []
               \<Longrightarrow> set (page_links env bd bp u h) \<subseteq> visited s \<union> set (queue s)"
    unfolding closure_inv_def by blast+
  from i2 Cons have cR: "c \<in> ?R" by simp
  show ?thesis
  proof (cases "c \<in> visited s")
    case True
    have body: "loop_body env (process_page env bd bp) s = s\<lparr>queue := rest\<rparr>"
      using Cons True by (simp add: loop_body_def)
    have sub: "visited s \<union> set (queue s) = visited s \<union> set rest"
      using Cons True by auto
    show ?thesis
      unfolding body closure_inv_def
      using i1 i2 i3 i4 unfolding sub by auto
  next
    case False
    let ?V = "insert c (visited s)"
    show ?thesis
    proof (cases "\<exists>h. page_text web c = Some h \<and> h \<noteq> []")
      case no: False
      then have body: "loop_body env (process_page env bd bp) s
            = s\<lparr>queue := rest, visited := ?V,
                  fetch_log := fetch_log s @ [(c, page_text web c)]\<rparr>"
        using Cons False st
        by (cases "page_text web c") (auto simp: loop_body_def fetchPage_static Let_def)
      have sub: "visited s \<union> set (queue s) = ?V \<union> set rest"
        using Cons by auto
      have c4: "set (page_links env bd bp u h) \<subseteq> ?V \<union> set rest"
        if "u \<in> ?V" "page_text web u = Some h" "h \<noteq> []" for u h
      proof (cases "u = c")
        case True
        with that no show ?thesis by blast
      next
        case False
        with that i4 [of u h] sub show ?thesis by auto
      qed
      show ?thesis
        unfolding body closure_inv_def
        using i1 i2 i3 c4 unfolding sub by auto
    next
      case True
      then obtain h where h: "page_text web c = Some h" "h \<noteq> []" by blast
      let ?q = "rest @ filter (\<lambda>l. l \<notin> ?V) (page_links env bd bp c h)"
      have body: "loop_body env (process_page env bd bp) s
            = s\<lparr>queue := ?q, visited := ?V,
                  fetch_log := fetch_log s @ [(c, Some h)],
                  pages := pages s @ [\<lparr>url = c, content = snd (process_page env bd bp c ?V rest h)\<rparr>]\<rparr>"
        using Cons False st h process_page_queue [of env bd bp c ?V rest h]
        by (auto simp: loop_body_def fetchPage_static Let_def split: prod.splits)
      have links: "set (page_links env bd bp c h) \<subseteq> ?R"
        using reachable.link [OF cR h] by blast
      have sub: "visited s \<union> set (queue s) \<subseteq> ?V \<union> set ?q"
        using Cons by auto
      have c2: "?V \<union> set ?q \<subseteq> ?R"
        using i2 Cons links by auto
      have c4: "set (page_links env bd bp u h') \<subseteq> ?V \<union> set ?q"
        if "u \<in> ?V" "page_text web u = Some h'" "h' \<noteq> []" for u h'
      proof (cases "u = c")
        case True
        with that h show ?thesis by auto
      next
        case False
        with that i4 [of u h'] sub show ?thesis by blast
      qed
      have c1: "r = page_text web u" if "(u, r) \<in> set (fetch_log s @ [(c, Some h)])" for u r
        using that i1 h by auto
      show ?thesis
        unfolding body closure_inv_def
        using c1 c2 i3 sub c4 by auto
    qed
  qed
qed

lemma closure_inv_funpow:
  assumes "fetch env = static_fetch web" and "closure_inv env web bd bp seed s"
  shows "closure_inv env web bd bp seed ((loop_body env (process_page env bd bp) ^^ n) s)"
  by (induction n) (simp_all add: assms closure_inv_loop_body)

lemma loop_terminates:
  assumes st: "fetch env = static_fetch web"
    and fin: "finite (reachable env web bd bp seed)"
    and inv: "closure_inv env web bd bp seed s"
  shows "\<exists>n. queue ((loop_body env (process_page env bd bp) ^^ n) s) = []"
proof -
  let ?R = "reachable env web bd bp seed"
  let ?body = "loop_body env (process_page env bd bp)"
  let ?m = "\<lambda>s :: 'a crawl_state. (card (?R - visited s), length (queue s))"
  have "wf (inv_image (less_than <*lex*> less_than) ?m)"
    by (intro wf_inv_image wf_lex_prod wf_less_than)
  then show ?thesis
    using inv
  proof (induction s rule: wf_induct_rule)
    case (less s)
    show ?case
    proof (cases "queue s")
      case Nil
      then have "queue ((?body ^^ 0) s) = []" by simp
      then show ?thesis by blast
    next
      case (Cons c rest)
      have inv': "closure_inv env web bd bp seed (?body s)"
        by (rule closure_inv_loop_body [OF st less.prems])
      have cR: "c \<in> ?R"
        using less.prems Cons by (auto simp: closure_inv_def)
      have dec: "(?body s, s) \<in> inv_image (less_than <*lex*> less_than) ?m"
      proof (cases "c \<in> visited s")
        case True
        have "visited (?body s) = visited s"
          using loop_body_visited [OF Cons, of env "process_page env bd bp"] True by auto
        moreover have "queue (?body s) = rest"
          by (rule loop_body_queue_visited [OF Cons True])
        ultimately show ?thesis using Cons by simp
      next
        case False
        have v: "visited (?body s) = insert c (visited s)"
          by (rule loop_body_visited [OF Cons])
        have "?R - insert c (visited s) \<subset> ?R - visited s"
          using cR False by blast
        then have "card (?R - insert c (visited s)) < card (?R - visited s)"
          using fin by (intro psubset_card_mono) auto
        then show ?thesis by (simp add: v)
      qed
      from less.IH [OF dec inv'] obtain n where "queue ((?body ^^ n) (?body s)) = []"
        by blast
      then have "queue ((?body ^^ Suc n) s) = []"
        by (simp add: funpow_swap1)
      then show ?thesis by blast
    qed
  qed
qed

lemma closure_inv_complete:
  assumes inv: "closure_inv env web bd bp seed s" and q: "queue s = []"
  shows "visited s = reachable env web bd bp seed"
proof
  show "visited s \<subseteq> reachable env web bd bp seed"
    using inv by (simp add: closure_inv_def)
  have i3: "seed \<in> visited s"
    using inv q by (simp add: closure_inv_def)
  have i4: "set (page_links env bd bp u h) \<subseteq> visited s"
    if "u \<in> visited s" "page_text web u = Some h" "h \<noteq> []" for u h
    using inv q that unfolding closure_inv_def by auto
  show "reachable env web bd bp seed \<subseteq> visited s"
  proof
    fix u assume "u \<in> reachable env web bd bp seed"
    then show "u \<in> visited s"
    proof (induction rule: reachable.induct)
      case seed
      then show ?case by (rule i3)
    next
      case (link u h l)
      then show ?case using i4 [of u h] by blast
    qed
  qed
qed

lemma pages_of_log:
  assumes d: "dedup_inv s" and c: "closure_inv env web bd bp seed s"
  shows "set (map url (pages s)) = {u \<in> visited s. \<exists>h. page_text web u = Some h \<and> h \<noteq> []}"
proof -
  have log: "r = page_text web u" if "(u, r) \<in> set (fetch_log s)" for u r
    using c that unfolding closure_inv_def by blast
  have v: "visited s = fst ` set (fetch_log s)"
    using d by (simp add: dedup_inv_def)
  have p: "set (map url (pages s))
           = fst ` {x \<in> set (fetch_log s). snd x \<noteq> None \<and> snd x \<noteq> Some []}"
    using d by (simp add: dedup_inv_def case_prod_unfold)
  show ?thesis
    unfolding p v using log by (force simp: image_iff)
qed

lemma reachable_subset_closed:
  assumes "seed \<in> S"
    and "\<And>u h. u \<in> S \<Longrightarrow> page_text web u = Some h \<Longrightarrow> h \<noteq> []
           \<Longrightarrow> set (page_links env bd bp u h) \<subseteq> S"
  shows "reachable env web bd bp seed \<subseteq> S"
proof
  fix u assume "u \<in> reachable env web bd bp seed"
  then show "u \<in> S"
    by (induction rule: reachable.induct) (use assms in blast)+
qed

lemma site_reachable:
  "reachable (sample_env site_web site_docs) site_web ''a.com'' ''/docs/'' ''https://a.com/docs/''
   \<subseteq> {''https://a.com/docs/'', ''https://a.com/docs/nav'', ''https://a.com/docs/x'',
       ''https://a.com/docs/missing'', ''https://a.com/docs/empty''}"
proof (rule reachable_subset_closed)
  show "''https://a.com/docs/'' \<in> {''https://a.com/docs/'', ''https://a.com/docs/nav'', ''https://a.com/docs/x'',
       ''https://a.com/docs/missing'', ''https://a.com/docs/empty''}"
    by simp
next
  fix u h
  assume "u \<in> {''https://a.com/docs/'', ''https://a.com/docs/nav'', ''https://a.com/docs/x'',
       ''https://a.com/docs/missing'', ''https://a.com/docs/empty''}"
    and "page_text site_web u = Some h" and "h \<noteq> []"
  then show "set (page_links (sample_env site_web site_docs) ''a.com'' ''/docs/'' u h)
      \<subseteq> {''https://a.com/docs/'', ''https://a.com/docs/nav'', ''https://a.com/docs/x'',
       ''https://a.com/docs/missing'', ''https://a.com/docs/empty''}"
    using site_page_text site_page_links by auto
qed

lemma static_crawl_completes:
  assumes st: "fetch env = static_fetch web"
    and seed: "url_new env (normalizeUrl (url_new env) startUrl) None = Some startUrlObj"
    and fin: "finite (reachable env web (hostname startUrlObj)
                (ensure_trailing_slash (pathname startUrlObj))
                (normalizeUrl (url_new env) startUrl))"
  shows "\<exists>n s. (\<forall>m\<ge>n. crawl env m w startUrl = Some (Inr s))
           \<and> distinct (map fst (fetch_log s))
           \<and> set (map fst (fetch_log s))
               = reachable env web (hostname startUrlObj)
                   (ensure_trailing_slash (pathname startUrlObj))
                   (normalizeUrl (url_new env) startUrl)
           \<and> (\<forall>u. page_text web u = None \<or> page_text web u = Some [] \<longrightarrow>
                 u \<notin> set (map url (pages s)))
           \<and> (\<forall>u \<in> reachable env web (hostname startUrlObj)
                       (ensure_trailing_slash (pathname startUrlObj))
                       (normalizeUrl (url_new env) startUrl).
                 \<forall>h. page_text web u = Some h \<and> h \<noteq> [] \<longrightarrow> u \<in> set (map url (pages s)))"
proof -
  let ?seed = "normalizeUrl (url_new env) startUrl"
  let ?bd = "hostname startUrlObj"
  let ?bp = "ensure_trailing_slash (pathname startUrlObj)"
  let ?R = "reachable env web ?bd ?bp ?seed"
  let ?body = "loop_body env (process_page env ?bd ?bp)"
  let ?s0 = "initial_state w ?seed"
  obtain n where n: "queue ((?body ^^ n) ?s0) = []"
    using loop_terminates [OF st fin closure_inv_initial] by blast
  let ?s = "(?body ^^ n) ?s0"
  have cl: "closure_inv env web ?bd ?bp ?seed ?s"
    by (rule closure_inv_funpow [OF st closure_inv_initial])
  have dd: "dedup_inv ?s"
    by (rule dedup_inv_funpow [OF dedup_inv_initial])
  have run: "crawl env m w startUrl = Some (Inr ?s)" if "n \<le> m" for m
    using n funpow_loop_body_stable [OF n that]
    by (simp add: crawl_def seed Let_def crawl_loop_funpow)
  have vis: "visited ?s = ?R"
    by (rule closure_inv_complete [OF cl n])
  have pg: "set (map url (pages ?s)) = {u \<in> ?R. \<exists>h. page_text web u = Some h \<and> h \<noteq> []}"
    using pages_of_log [OF dd cl] unfolding vis .
  have d1: "distinct (map fst (fetch_log ?s))" and d2: "set (map fst (fetch_log ?s)) = ?R"
    using dd vis by (simp_all add: dedup_inv_def)
  have absent: "u \<notin> set (map url (pages ?s))"
    if "page_text web u = None \<or> page_text web u = Some []" for u
    unfolding pg using that by auto
  have present: "u \<in> set (map url (pages ?s))"
    if "u \<in> ?R" "page_text web u = Some h \<and> h \<noteq> []" for u h
    unfolding pg using that by blast
  show ?thesis
    using run d1 d2 absent present by blast
qed

text \<open>
  C7, as the claim states it, fails: the page \<^verbatim>\<open>https://a.com/docs/empty\<close> is linked
  from the home page and in scope, it is fetched and the fetch succeeds with status 200,
  and it is not among the pages of the result, because its body is empty.
\<close>

theorem empty_body_page_counterexample:
  "site_web ''https://a.com/docs/empty'' = Some (Response True ''OK'' (Some []))
   \<and> crawl (sample_env site_web site_docs) 6 () ''https://a.com/docs/#top'' = Some (Inr site_final)
   \<and> ''https://a.com/docs/empty'' \<in> set (map fst (fetch_log site_final))
   \<and> ''https://a.com/docs/empty'' \<notin> set (map url (pages site_final))"
  by code_simp

text \<open>
  C7, amended.  On a network error and on a response that is not ok, \<^verbatim>\<open>fetchPage\<close>
  returns \<^verbatim>\<open>null\<close>.  A fetch that fails, or that returns an empty text, does not stop
  the crawl, on any network: the turn of the loop marks the URL visited, keeps the rest
  of the queue and adds no page; after any number of turns no URL has been fetched twice,
  and a URL whose fetch failed or returned an empty text is not among the pages; a
  crawl from a seed that parses never ends in an error, and in the state in which it
  ends the same holds.  On a static network, from a seed that parses and from which
  finitely many URLs can be reached through in-scope links, the crawl of
  \<^verbatim>\<open>src/index.ts\<close> completes: some fuel is enough, and more fuel gives the same
  result; every reachable URL is fetched, once; a URL whose fetch fails (a network
  error, a response that is not ok, a body that cannot be read) or returns an empty
  text is not among the pages; and every reachable URL whose fetch returns a text that
  is not empty is among the pages.
\<close>

theorem fetch_failure_tolerated:
  "(fst (fetch env w' u') = None \<or> (\<exists>resp. fst (fetch env w' u') = Some resp \<and> \<not> ok resp) \<longrightarrow>
      fst (fetchPage (fetch env) w' u') = None)
   \<and> (queue s = c # rest \<and> c \<notin> visited s
      \<and> (fst (fetchPage (fetch env) (world s) c) = None
          \<or> fst (fetchPage (fetch env) (world s) c) = Some []) \<longrightarrow>
      loop_body env process s
        = s\<lparr>queue := rest, visited := insert c (visited s),
             fetch_log := fetch_log s @ [(c, fst (fetchPage (fetch env) (world s) c))],
             world := snd (fetchPage (fetch env) (world s) c)\<rparr>)
   \<and> distinct (map fst (fetch_log ((loop_body env process ^^ n) (initial_state w seed))))
   \<and> (\<forall>u r. (u, r) \<in> set (fetch_log ((loop_body env process ^^ n) (initial_state w seed)))
             \<and> (r = None \<or> r = Some []) \<longrightarrow>
           u \<notin> set (map url (pages ((loop_body env process ^^ n) (initial_state w seed)))))
   \<and> (url_new env (normalizeUrl (url_new env) startUrl) None \<noteq> None \<longrightarrow>
        crawl env fuel w startUrl \<noteq> Some (Inl e))
   \<and> (crawl env fuel w startUrl = Some (Inr t) \<longrightarrow>
        distinct (map fst (fetch_log t))
        \<and> (\<forall>u r. (u, r) \<in> set (fetch_log t) \<and> (r = None \<or> r = Some []) \<longrightarrow>
               u \<notin> set (map url (pages t))))
   \<and> (fetch env = static_fetch web
        \<and> url_new env (normalizeUrl (url_new env) startUrl) None = Some startUrlObj
        \<and> finite (reachable env web (hostname startUrlObj)
                    (ensure_trailing_slash (pathname startUrlObj))
                    (normalizeUrl (url_new env) startUrl)) \<longrightarrow>
        (\<exists>k t. (\<forall>m\<ge>k. crawl env m w startUrl = Some (Inr t))
           \<and> distinct (map fst (fetch_log t))
           \<and> set (map fst (fetch_log t))
               = reachable env web (hostname startUrlObj)
                   (ensure_trailing_slash (pathname startUrlObj))
                   (normalizeUrl (url_new env) startUrl)
           \<and> (\<forall>u. page_text web u = None \<or> page_text web u = Some [] \<longrightarrow>
                 u \<notin> set (map url (pages t)))
           \<and> (\<forall>u \<in> reachable env web (hostname startUrlObj)
                       (ensure_trailing_slash (pathname startUrlObj))
                       (normalizeUrl (url_new env) startUrl).
                 \<forall>h. page_text web u = Some h \<and> h \<noteq> [] \<longrightarrow> u \<in> set (map url (pages t)))))"
proof (intro conjI)
  let ?sn = "(loop_body env process ^^ n) (initial_state w seed)"
  have inv: "dedup_inv ?sn"
    by (rule dedup_inv_funpow [OF dedup_inv_initial])
  show "fst (fetch env w' u') = None \<or> (\<exists>resp. fst (fetch env w' u') = Some resp \<and> \<not> ok resp) \<longrightarrow>
      fst (fetchPage (fetch env) w' u') = None"
    using fetchPage_failure [of "fetch env" w' u'] by blast
  show "queue s = c # rest \<and> c \<notin> visited s
      \<and> (fst (fetchPage (fetch env) (world s) c) = None
          \<or> fst (fetchPage (fetch env) (world s) c) = Some []) \<longrightarrow>
      loop_body env process s
        = s\<lparr>queue := rest, visited := insert c (visited s),
             fetch_log := fetch_log s @ [(c, fst (fetchPage (fetch env) (world s) c))],
             world := snd (fetchPage (fetch env) (world s) c)\<rparr>"
    using loop_body_dropped_fetch [of s c rest env process] by blast
  show "distinct (map fst (fetch_log ?sn))"
    using inv by (simp add: dedup_inv_def)
  show "\<forall>u r. (u, r) \<in> set (fetch_log ?sn) \<and> (r = None \<or> r = Some []) \<longrightarrow>
           u \<notin> set (map url (pages ?sn))"
    using dedup_inv_absent [OF inv] by blast
  show "url_new env (normalizeUrl (url_new env) startUrl) None \<noteq> None \<longrightarrow>
        crawl env fuel w startUrl \<noteq> Some (Inl e)"
    using crawl_not_fatal [of env startUrl fuel w e] by blast
  show "crawl env fuel w startUrl = Some (Inr t) \<longrightarrow>
        distinct (map fst (fetch_log t))
        \<and> (\<forall>u r. (u, r) \<in> set (fetch_log t) \<and> (r = None \<or> r = Some []) \<longrightarrow>
               u \<notin> set (map url (pages t)))"
  proof
    assume "crawl env fuel w startUrl = Some (Inr t)"
    then have d: "dedup_inv t" by (rule dedup_inv_crawl(1))
    then have "distinct (map fst (fetch_log t))" by (simp add: dedup_inv_def)
    with dedup_inv_absent [OF d] show "distinct (map fst (fetch_log t))
        \<and> (\<forall>u r. (u, r) \<in> set (fetch_log t) \<and> (r = None \<or> r = Some []) \<longrightarrow>
               u \<notin> set (map url (pages t)))"
      by blast
  qed
  show "fetch env = static_fetch web
        \<and> url_new env (normalizeUrl (url_new env) startUrl) None = Some startUrlObj
        \<and> finite (reachable env web (hostname startUrlObj)
                    (ensure_trailing_slash (pathname startUrlObj))
                    (normalizeUrl (url_new env) startUrl)) \<longrightarrow>
        (\<exists>k t. (\<forall>m\<ge>k. crawl env m w startUrl = Some (Inr t))
           \<and> distinct (map fst (fetch_log t))
           \<and> set (map fst (fetch_log t))
               = reachable env web (hostname startUrlObj)
                   (ensure_trailing_slash (pathname startUrlObj))
                   (normalizeUrl (url_new env) startUrl)
           \<and> (\<forall>u. page_text web u = None \<or> page_text web u = Some [] \<longrightarrow>
                 u \<notin> set (map url (pages t)))
           \<and> (\<forall>u \<in> reachable env web (hostname startUrlObj)
                       (ensure_trailing_slash (pathname startUrlObj))
                       (normalizeUrl (url_new env) startUrl).
                 \<forall>h. page_text web u = Some h \<and> h \<noteq> [] \<longrightarrow> u \<in> set (map url (pages t))))"
    using static_crawl_completes [of env web startUrl startUrlObj w] by blast
qed

theorem fetch_failure_tolerated_witness:
  "\<exists>n s. crawl (sample_env site_web site_docs) n () ''https://a.com/docs/#top'' = Some (Inr s)
         \<and> distinct (map fst (fetch_log s))
         \<and> ''https://a.com/docs/missing'' \<in> set (map fst (fetch_log s))
         \<and> ''https://a.com/docs/missing'' \<notin> set (map url (pages s))
         \<and> ''https://a.com/docs/empty'' \<notin> set (map url (pages s))
         \<and> ''https://a.com/docs/'' \<in> set (map url (pages s))
         \<and> ''https://a.com/docs/x'' \<in> set (map url (pages s))"
proof -
  let ?env = "sample_env site_web site_docs"
  let ?seed = "\<lparr>scheme = ''https'', username = [], password = [], host = Some ''a.com'',
           port = None, path = ''/docs/'', query = None, fragment = None, opaque_path = False\<rparr>"
  let ?R = "reachable ?env site_web ''a.com'' ''/docs/'' ''https://a.com/docs/''"
  have e: "url_new ?env = sample_url_new" "fetch ?env = static_fetch site_web"
    by (simp_all add: sample_env_def)
  have n: "normalizeUrl (url_new ?env) ''https://a.com/docs/#top'' = ''https://a.com/docs/''"
    by (simp add: e site_seed)
  have s: "url_new ?env (normalizeUrl (url_new ?env) ''https://a.com/docs/#top'') None = Some ?seed"
    by (simp add: n) (simp add: e site_seed)
  have b: "hostname ?seed = ''a.com''" "ensure_trailing_slash (pathname ?seed) = ''/docs/''"
    by (simp_all add: hostname_def pathname_def ensure_trailing_slash_def endsWith_def)
  have f: "finite (reachable ?env site_web (hostname ?seed) (ensure_trailing_slash (pathname ?seed))
              (normalizeUrl (url_new ?env) ''https://a.com/docs/#top''))"
    unfolding b n by (rule finite_subset [OF site_reachable]) simp
  have home: "''https://a.com/docs/'' \<in> ?R"
    by (rule reachable.seed)
  have x: "''https://a.com/docs/x'' \<in> ?R"
    by (rule reachable.link [OF home site_page_text(1)]) (simp_all add: site_page_links)
  have missing: "''https://a.com/docs/missing'' \<in> ?R"
    by (rule reachable.link [OF home site_page_text(1)]) (simp_all add: site_page_links)
  note static = fetch_failure_tolerated
    [where env = ?env and web = site_web and startUrl = "''https://a.com/docs/#top''"
       and startUrlObj = ?seed and w = "()",
     THEN conjunct2, THEN conjunct2, THEN conjunct2, THEN conjunct2, THEN conjunct2,
     THEN conjunct2]
  from static e(2) s f
  obtain k t where t: "\<forall>m\<ge>k. crawl ?env m () ''https://a.com/docs/#top'' = Some (Inr t)"
    "distinct (map fst (fetch_log t))"
    "set (map fst (fetch_log t)) = ?R"
    "\<forall>u. page_text site_web u = None \<or> page_text site_web u = Some [] \<longrightarrow>
       u \<notin> set (map url (pages t))"
    "\<forall>u \<in> ?R. \<forall>h. page_text site_web u = Some h \<and> h \<noteq> [] \<longrightarrow> u \<in> set (map url (pages t))"
    unfolding b n by blast
  have "crawl ?env k () ''https://a.com/docs/#top'' = Some (Inr t)"
    using t(1) by simp
  moreover have "''https://a.com/docs/missing'' \<in> set (map fst (fetch_log t))"
    using t(3) missing by simp
  moreover have "''https://a.com/docs/missing'' \<notin> set (map url (pages t))"
    using t(4) site_page_text(4) by blast
  moreover have "''https://a.com/docs/empty'' \<notin> set (map url (pages t))"
    using t(4) site_page_text(5) by blast
  moreover have "''https://a.com/docs/'' \<in> set (map url (pages t))"
    using t(5) home site_page_text(1) by blast
  moreover have "''https://a.com/docs/x'' \<in> set (map url (pages t))"
    using t(5) x site_page_text(3) by blast
  ultimately show ?thesis using t(2) by blast
qed

end
